theory Spec2Isabelle
  imports Main "HOL-Library.Word" "HOL-Library.AList"
begin

section \<open>Values shared by the reaper's packages\<close>

text \<open>
  Go strings are byte sequences: \<open>string\<close>. \<open>reapable.Region\<close> and \<open>reapable.ID\<close>
  are named string types. An \<open>int64\<close> is a 64-bit word read as two's complement.
  A runtime panic is a value of \<open>panic\<close>; a function that can panic returns
  \<open>panic + 'a\<close>. A Go \<open>error\<close> result is \<open>string + 'a\<close>, with \<open>Inl\<close> the error.
\<close>

type_synonym Region = string
type_synonym ID = string
type_synonym int64 = "64 word"

datatype panic = IndexOutOfRange | SliceBoundsOutOfRange | NilMapAssignment

record Filter =
  Function :: string
  Arguments :: "string list"

type_synonym FilterGroup = "Filter list"

text \<open>\<open>filters.NewFilter(function, arguments)\<close> builds the struct.\<close>

definition NewFilter :: "string \<Rightarrow> string list \<Rightarrow> Filter" where
  "NewFilter function arguments = \<lparr>Function = function, Arguments = arguments\<rparr>"

text \<open>
  \<open>filter.Arguments[i]\<close>: Go panics when the index is out of range, where \<open>xs ! i\<close>
  would return an unspecified value.
\<close>

definition argument :: "Filter \<Rightarrow> nat \<Rightarrow> panic + string" where
  "argument f i =
     (if i < length (Arguments f) then Inr (Arguments f ! i) else Inl IndexOutOfRange)"

text \<open>
  The lifecycle state of a resource, as far as the code under study reads it:
  \<open>State\<close> is the text of \<open>reaperState.State.String()\<close>, \<open>Until\<close> the time in
  nanoseconds after which the state may advance.
\<close>

record ReaperState =
  State :: string
  Until :: int

text \<open>
  The struct \<open>Resource\<close> that every resource kind embeds. \<open>Tags\<close> is a Go
  \<open>map[string]string\<close>.
\<close>

record Resource =
  Region :: Region
  ID :: ID
  Name :: string
  Tags :: "string \<rightharpoonup> string"
  Dependency :: bool
  IsInCloudformation :: bool
  reaperState :: ReaperState

text \<open>
  Modelled from the spec: \<open>Resource.Tagged\<close> and \<open>Resource.Tag\<close> live in a file of the
  \<open>aws\<close> package that is not part of the sources at hand. The spec calls a resource
  tagged with a key when the key is present, "regardless of value"; \<open>Tag\<close> reads the
  Go map, whose value for an absent key is the empty string.
\<close>

definition Tagged :: "'a Resource_scheme \<Rightarrow> string \<Rightarrow> bool" where
  "Tagged r k = (k \<in> dom (Tags r))"

definition Tag :: "'a Resource_scheme \<Rightarrow> string \<Rightarrow> string" where
  "Tag r k = (case Tags r k of None \<Rightarrow> [] | Some v \<Rightarrow> v)"

section \<open>aws/autoscaling.go\<close>

text \<open>
  \<open>AutoScalingGroup\<close> embeds \<open>Resource\<close> and the API's \<open>autoscaling.Group\<close>, of which
  the filters read \<open>DesiredCapacity\<close> (\<open>*int64\<close>, possibly nil) and \<open>CreatedTime\<close>
  (\<open>*time.Time\<close>, possibly nil, here in nanoseconds).
\<close>

record AutoScalingGroup = Resource +
  DesiredCapacity :: "int64 option"
  CreatedTime :: "int option"
  Instances :: "ID list"

definition sizeGreaterThanOrEqualTo :: "AutoScalingGroup \<Rightarrow> int64 \<Rightarrow> bool" where
  "sizeGreaterThanOrEqualTo a sz =
     (case DesiredCapacity a of Some c \<Rightarrow> word_sle sz c | None \<Rightarrow> False)"

definition sizeLessThanOrEqualTo :: "AutoScalingGroup \<Rightarrow> int64 \<Rightarrow> bool" where
  "sizeLessThanOrEqualTo a sz =
     (case DesiredCapacity a of Some c \<Rightarrow> word_sle c sz | None \<Rightarrow> False)"

definition sizeEqualTo :: "AutoScalingGroup \<Rightarrow> int64 \<Rightarrow> bool" where
  "sizeEqualTo a sz =
     (case DesiredCapacity a of Some c \<Rightarrow> c = sz | None \<Rightarrow> False)"

definition sizeLessThan :: "AutoScalingGroup \<Rightarrow> int64 \<Rightarrow> bool" where
  "sizeLessThan a sz =
     (case DesiredCapacity a of Some c \<Rightarrow> word_sless c sz | None \<Rightarrow> False)"

definition sizeGreaterThan :: "AutoScalingGroup \<Rightarrow> int64 \<Rightarrow> bool" where
  "sizeGreaterThan a sz =
     (case DesiredCapacity a of Some c \<Rightarrow> word_sless sz c | None \<Rightarrow> False)"

text \<open>
  The clock is read anew by every call of a \<open>Filter\<close> method that asks for the time.
  A call is named by its place in the tick: the number of the \<open>applyFilters\<close> call
  within \<open>reap\<close>, the index of the resource in the batch, the index of the filter
  group, the index of the filter in the group (the whitelist filter of a resource
  comes after its groups and has the index that follows the last group).
\<close>

type_synonym call = "nat list"

text \<open>
  What \<open>AutoScalingGroup.Filter\<close> calls outside its file is a parameter of the model:
  \<^item> \<open>Int64Value\<close> and \<open>BoolValue\<close> are methods of \<open>filters.Filter\<close>; they return a
    value or an error, and may panic (the outer \<open>Inl\<close>);
  \<^item> \<open>ParseDuration\<close> is \<open>time.ParseDuration\<close>; a \<open>time.Duration\<close> is an int64 of
    nanoseconds;
  \<^item> \<open>Now\<close> is what \<open>time.Now\<close> returns during the given call, in nanoseconds since
    the epoch. No two calls need to read the same time.
\<close>

record env =
  Int64Value :: "Filter \<Rightarrow> nat \<Rightarrow> panic + (string + int64)"
  BoolValue :: "Filter \<Rightarrow> nat \<Rightarrow> panic + (string + bool)"
  ParseDuration :: "string \<Rightarrow> string + int64"
  Now :: "call \<Rightarrow> int"

text \<open>
  \<open>time.Since(t)\<close> is \<open>time.Now().Sub(t)\<close>, and \<open>Sub\<close> does not wrap around: a
  difference beyond the range of a \<open>Duration\<close> is the largest or the smallest
  \<open>Duration\<close>.
\<close>

definition maxDuration :: int where
  "maxDuration = 2 ^ 63 - 1"

definition minDuration :: int where
  "minDuration = - (2 ^ 63)"

definition Sub :: "int \<Rightarrow> int \<Rightarrow> int" where
  "Sub t u =
     (if t - u > maxDuration then maxDuration
      else if t - u < minDuration then minDuration
      else t - u)"

definition Since :: "'e env_scheme \<Rightarrow> call \<Rightarrow> int \<Rightarrow> int" where
  "Since e k t = Sub (Now e k) t"

text \<open>
  One size case of the switch:
  \<open>if i, err := filter.Int64Value(0); err == nil && a.size...(i) { matched = true }\<close>.
\<close>

definition sizeCase ::
  "'e env_scheme \<Rightarrow> Filter \<Rightarrow> (int64 \<Rightarrow> bool) \<Rightarrow> panic + bool" where
  "sizeCase e f cmp =
     (case Int64Value e f 0 of
        Inl p \<Rightarrow> Inl p
      | Inr (Inl err) \<Rightarrow> Inr False
      | Inr (Inr i) \<Rightarrow> Inr (cmp i))"

definition boolCase ::
  "'e env_scheme \<Rightarrow> Filter \<Rightarrow> bool \<Rightarrow> panic + bool" where
  "boolCase e f flag =
     (case BoolValue e f 0 of
        Inl p \<Rightarrow> Inl p
      | Inr (Inl err) \<Rightarrow> Inr False
      | Inr (Inr b) \<Rightarrow> Inr (flag = b))"

text \<open>
  \<open>d, err := time.ParseDuration(filter.Arguments[0])\<close>, then
  \<open>err == nil && a.CreatedTime != nil && cmp (time.Since(*a.CreatedTime)) d\<close>. The
  clock is read only when the first two conjuncts hold; the comparison is that of two
  signed 64-bit durations.
\<close>

definition createdCase ::
  "'e env_scheme \<Rightarrow> call \<Rightarrow> AutoScalingGroup \<Rightarrow> Filter \<Rightarrow> (int \<Rightarrow> int \<Rightarrow> bool)
   \<Rightarrow> panic + bool" where
  "createdCase e k a f cmp =
     (case argument f 0 of
        Inl p \<Rightarrow> Inl p
      | Inr s \<Rightarrow>
          (case ParseDuration e s of
             Inl err \<Rightarrow> Inr False
           | Inr d \<Rightarrow>
               (case CreatedTime a of
                  None \<Rightarrow> Inr False
                | Some t \<Rightarrow> Inr (cmp (Since e k t) (sint d)))))"

text \<open>A case that reads \<open>filter.Arguments[0]\<close> and tests it.\<close>

definition argCase :: "Filter \<Rightarrow> (string \<Rightarrow> bool) \<Rightarrow> panic + bool" where
  "argCase f test = (case argument f 0 of Inl p \<Rightarrow> Inl p | Inr s \<Rightarrow> Inr (test s))"

text \<open>\<open>strings.Contains(s, sub)\<close>.\<close>

fun Contains :: "string \<Rightarrow> string \<Rightarrow> bool" where
  "Contains [] sub = (sub = [])"
| "Contains (c # s) sub = (take (length sub) (c # s) = sub \<or> Contains s sub)"

text \<open>
  \<open>AutoScalingGroup.Filter\<close>, called as call \<open>k\<close>: the switch on the function name,
  in the source's order. The result is \<open>matched\<close>; an unknown name is logged and
  does not match.
\<close>

definition AutoScalingGroup_Filter ::
  "'e env_scheme \<Rightarrow> call \<Rightarrow> AutoScalingGroup \<Rightarrow> Filter \<Rightarrow> panic + bool" where
  "AutoScalingGroup_Filter e k a f =
    (let fn = Function f in
     if fn = ''SizeGreaterThan'' then sizeCase e f (sizeGreaterThan a)
     else if fn = ''SizeLessThan'' then sizeCase e f (sizeLessThan a)
     else if fn = ''SizeEqualTo'' then sizeCase e f (sizeEqualTo a)
     else if fn = ''SizeLessThanOrEqualTo'' then sizeCase e f (sizeLessThanOrEqualTo a)
     else if fn = ''SizeGreaterThanOrEqualTo'' then sizeCase e f (sizeGreaterThanOrEqualTo a)
     else if fn = ''CreatedTimeInTheLast'' then createdCase e k a f (\<lambda>since d. since < d)
     else if fn = ''CreatedTimeNotInTheLast'' then createdCase e k a f (\<lambda>since d. since > d)
     else if fn = ''InCloudformation'' then boolCase e f (IsInCloudformation a)
     else if fn = ''Region'' then Inr (Region a \<in> set (Arguments f))
     else if fn = ''NotRegion'' then Inr (Region a \<notin> set (Arguments f))
     else if fn = ''Tagged'' then argCase f (\<lambda>s. Tagged a s)
     else if fn = ''NotTagged'' then argCase f (\<lambda>s. \<not> Tagged a s)
     else if fn = ''TagNotEqual'' then
       (case argument f 0 of
          Inl p \<Rightarrow> Inl p
        | Inr k \<Rightarrow> (case argument f 1 of Inl p \<Rightarrow> Inl p | Inr v \<Rightarrow> Inr (Tag a k \<noteq> v)))
     else if fn = ''ReaperState'' then argCase f (\<lambda>s. State (reaperState a) = s)
     else if fn = ''NotReaperState'' then argCase f (\<lambda>s. State (reaperState a) \<noteq> s)
     else if fn = ''Named'' then argCase f (\<lambda>s. Name a = s)
     else if fn = ''NotNamed'' then argCase f (\<lambda>s. Name a \<noteq> s)
     else if fn = ''IsDependency'' then boolCase e f (Dependency a)
     else if fn = ''NameContains'' then argCase f (\<lambda>s. Contains (Name a) s)
     else if fn = ''NotNameContains'' then argCase f (\<lambda>s. \<not> Contains (Name a) s)
     else Inr False)"

section \<open>The resource kinds and the filters package\<close>

text \<open>
  \<open>reaperevents.Reapable\<close> is an interface; the reaper switches on the dynamic type.
  Only \<open>AutoScalingGroup\<close> has its file at hand: of the other kinds the model keeps
  the embedded \<open>Resource\<close>. \<open>OtherKind\<close> stands for any implementation that the
  type switches send to their \<open>default\<close> branch.
\<close>

datatype Reapable =
    Instance Resource
  | ASG AutoScalingGroup
  | Cloudformation Resource
  | SecurityGroup Resource
  | Volume Resource
  | OtherKind Resource

fun resourceOf :: "Reapable \<Rightarrow> Resource" where
  "resourceOf (Instance r) = r"
| "resourceOf (ASG a) = Resource.truncate a"
| "resourceOf (Cloudformation r) = r"
| "resourceOf (SecurityGroup r) = r"
| "resourceOf (Volume r) = r"
| "resourceOf (OtherKind r) = r"

text \<open>
  The \<open>Filter\<close> methods of Instance, Cloudformation, SecurityGroup and Volume are in
  files of the \<open>aws\<close> package that are not at hand. What they answer in a given call
  is the parameter \<open>kindFilter\<close>: a boolean or a panic, for a resource and a filter.
\<close>

record fenv = env +
  kindFilter :: "call \<Rightarrow> Reapable \<Rightarrow> Filter \<Rightarrow> panic + bool"

text \<open>
  Modelled from the spec: \<open>Filter\<close> as the interface method, for the kinds whose
  \<open>Filter\<close> is not at hand. Two of their cases are taken to be those of
  \<open>AutoScalingGroup.Filter\<close>: \<open>Tagged\<close> (the spec's whitelist check is "tagged with
  the configured whitelist key, regardless of value", for every kind) and
  \<open>IsDependency\<close> (the spec lists "dependency-flag equality" among the filter
  functions that the kinds share). Any other function name goes to \<open>kindFilter\<close>. An
  \<open>AutoScalingGroup\<close> goes to its own method.
\<close>

definition Reapable_Filter ::
  "fenv \<Rightarrow> call \<Rightarrow> Reapable \<Rightarrow> Filter \<Rightarrow> panic + bool" where
  "Reapable_Filter e k x f =
     (case x of
        ASG a \<Rightarrow> AutoScalingGroup_Filter e k a f
      | _ \<Rightarrow>
          (if Function f = ''Tagged'' then argCase f (\<lambda>s. Tagged (resourceOf x) s)
           else if Function f = ''IsDependency'' then boolCase e f (Dependency (resourceOf x))
           else kindFilter e k x f))"

text \<open>
  Modelled from the spec: \<open>filters.ApplyFilters(filterable, group)\<close> is in the
  \<open>filters\<close> package, not at hand. Spec 4.4, \<open>matchGroup\<close>: "AND over all filters; a
  single filter failing short-circuits the group to non-match". The group is the list
  of its filters in the order they are visited, \<open>i\<close> the index of the next one; a
  panic of a filter that is reached propagates.
\<close>

fun ApplyFilters :: "fenv \<Rightarrow> call \<Rightarrow> nat \<Rightarrow> Reapable \<Rightarrow> FilterGroup \<Rightarrow> panic + bool" where
  "ApplyFilters e k i x [] = Inr True"
| "ApplyFilters e k i x (f # fs) =
     (case Reapable_Filter e (k @ [i]) x f of
        Inl p \<Rightarrow> Inl p
      | Inr False \<Rightarrow> Inr False
      | Inr True \<Rightarrow> ApplyFilters e k (Suc i) x fs)"

section \<open>The configuration\<close>

text \<open>
  The fields of \<open>Config\<close> that the code at hand reads. \<open>FilterGroups\<close> is a Go map
  from group name to group: an association list with distinct names, in the order a
  \<open>range\<close> visits it.
\<close>

record KindConfig =
  Enabled :: bool
  FilterGroups :: "(string \<times> FilterGroup) list"

record HTTPConfig =
  TokenSecret :: string
  APIURL :: string
  Action :: string
  Token :: string

record Config =
  Regions :: "string list"
  WhitelistTag :: string
  EventTag :: string
  Instances_cfg :: KindConfig
  AutoScalingGroups_cfg :: KindConfig
  Cloudformations_cfg :: KindConfig
  SecurityGroups_cfg :: KindConfig
  Volumes_cfg :: KindConfig
  HTTP :: HTTPConfig

section \<open>applyFilters\<close>

text \<open>\<open>m[k]++\<close> on a Go map of counters: an absent key counts from zero.\<close>

definition incr :: "'k \<Rightarrow> ('k \<times> nat) list \<Rightarrow> ('k \<times> nat) list" where
  "incr k m = AList.update k (case map_of m k of None \<Rightarrow> 1 | Some n \<Rightarrow> Suc n) m"

text \<open>
  The type switch at the head of the loop body: the statistic name and the filter
  groups of the kind, or \<open>None\<close> at the \<open>default\<close> branch.
\<close>

fun kindSettings :: "Config \<Rightarrow> Reapable \<Rightarrow> (string \<times> (string \<times> FilterGroup) list) option" where
  "kindSettings c (Instance r) =
     Some (''reaper.instances.whitelistedCount'', FilterGroups (Instances_cfg c))"
| "kindSettings c (ASG a) =
     Some (''reaper.asgs.whitelistedCount'', FilterGroups (AutoScalingGroups_cfg c))"
| "kindSettings c (Cloudformation r) =
     Some (''reaper.cloudformations.whitelistedCount'', FilterGroups (Cloudformations_cfg c))"
| "kindSettings c (SecurityGroup r) =
     Some (''reaper.securitygroups.whitelistedCount'', FilterGroups (SecurityGroups_cfg c))"
| "kindSettings c (Volume r) =
     Some (''reaper.volumes.whitelistedCount'', FilterGroups (Volumes_cfg c))"
| "kindSettings c (OtherKind r) = None"

text \<open>
  The filter groups that the type switch selects for a resource; a kind that the
  switch does not know has none.
\<close>

definition filterGroupsOf :: "Config \<Rightarrow> Reapable \<Rightarrow> (string \<times> FilterGroup) list" where
  "filterGroupsOf c x = (case kindSettings c x of None \<Rightarrow> [] | Some (stat, groups) \<Rightarrow> groups)"

text \<open>
  \<open>for name, group := range groups { didMatch := filters.ApplyFilters(filterable, group);
  if didMatch { matched = true; filterable.AddFilterGroup(name, group) } }\<close>.
  Every group is applied, matched or not; \<open>j\<close> is the index of the next group.
  \<open>AddFilterGroup\<close> records the group on the resource for reporting; nothing in the
  code at hand reads that record back, and the model does not carry it.
\<close>

fun matchGroups ::
  "fenv \<Rightarrow> call \<Rightarrow> nat \<Rightarrow> Reapable \<Rightarrow> (string \<times> FilterGroup) list \<Rightarrow> bool
   \<Rightarrow> panic + bool" where
  "matchGroups e k j x [] matched = Inr matched"
| "matchGroups e k j x ((name, grp) # groups) matched =
     (case ApplyFilters e (k @ [j]) 0 x grp of
        Inl p \<Rightarrow> Inl p
      | Inr didMatch \<Rightarrow>
          matchGroups e k (Suc j) x groups (if didMatch then True else matched))"

text \<open>
  \<open>for _, group := range groups { if len(group) != 0 { noFilters = false } }\<close>.
\<close>

fun noFiltersLoop :: "(string \<times> FilterGroup) list \<Rightarrow> bool \<Rightarrow> bool" where
  "noFiltersLoop [] noFilters = noFilters"
| "noFiltersLoop ((name, grp) # groups) noFilters =
     noFiltersLoop groups (if length grp \<noteq> 0 then False else noFilters)"

text \<open>
  The value of \<open>matched\<close> before the whitelist check: true without groups, true when
  every group is empty, and true when some group matched.
\<close>

definition groupsVerdict ::
  "fenv \<Rightarrow> call \<Rightarrow> Reapable \<Rightarrow> (string \<times> FilterGroup) list \<Rightarrow> panic + bool" where
  "groupsVerdict e k x groups =
     (let matched = (length groups = 0);
          noFilters = noFiltersLoop groups True;
          matched = (if noFilters then True else matched)
      in matchGroups e k 0 x groups matched)"

text \<open>
  One pass through the body of the loop of \<open>applyFilters\<close>, for one resource; \<open>k\<close>
  names the pass. The type switch may leave by its \<open>default\<close> branch (\<open>None\<close>).
  Otherwise the groups are applied, then the whitelist filter
  \<open>Tagged [config.WhitelistTag]\<close>, which resets \<open>matched\<close> and counts the resource
  under the statistic of its kind; either may panic.
\<close>

datatype verdict = Whitelisted string | Matched | NotMatched

definition examine :: "fenv \<Rightarrow> Config \<Rightarrow> call \<Rightarrow> Reapable \<Rightarrow> panic + verdict option" where
  "examine e c k filterable =
     (case kindSettings c filterable of
        None \<Rightarrow> Inr None
      | Some (stat, groups) \<Rightarrow>
          (case groupsVerdict e k filterable groups of
             Inl p \<Rightarrow> Inl p
           | Inr matched \<Rightarrow>
               (case Reapable_Filter e (k @ [length groups]) filterable
                       (NewFilter ''Tagged'' [WhitelistTag c]) of
                  Inl p \<Rightarrow> Inl p
                | Inr whitelisted \<Rightarrow>
                    Inr (Some (if whitelisted then Whitelisted stat
                               else if matched then Matched else NotMatched)))))"

text \<open>
  How the loop ends: it runs to its end with the slice \<open>gs\<close> and the whitelist
  counters, or it returns \<open>[]reaperevents.Reapable{}\<close> from the \<open>default\<close> branch of
  the type switch. A matched resource is appended to \<open>gs\<close>. \<open>k\<close> names the call of
  \<open>applyFilters\<close>, \<open>i\<close> is the index of the next resource.
\<close>

datatype loopExit =
    Finished "Reapable list" "(string \<times> nat) list"
  | DefaultReturn

fun filterLoop ::
  "fenv \<Rightarrow> Config \<Rightarrow> call \<Rightarrow> nat \<Rightarrow> Reapable list \<Rightarrow> Reapable list
   \<Rightarrow> (string \<times> nat) list \<Rightarrow> panic + loopExit" where
  "filterLoop e c k i [] gs whitelistedCount = Inr (Finished gs whitelistedCount)"
| "filterLoop e c k i (filterable # rest) gs whitelistedCount =
     (case examine e c (k @ [i]) filterable of
        Inl p \<Rightarrow> Inl p
      | Inr None \<Rightarrow> Inr DefaultReturn
      | Inr (Some (Whitelisted stat)) \<Rightarrow>
          filterLoop e c k (Suc i) rest gs (incr stat whitelistedCount)
      | Inr (Some Matched) \<Rightarrow>
          filterLoop e c k (Suc i) rest (gs @ [filterable]) whitelistedCount
      | Inr (Some NotMatched) \<Rightarrow> filterLoop e c k (Suc i) rest gs whitelistedCount)"

text \<open>
  \<open>applyFilters\<close>, called as call \<open>k\<close>. The deferred \<open>recover\<close> is at the level of
  the function: a panic anywhere in the loop ends the call, and the function returns
  the zero value of its result, the nil slice.
\<close>

definition applyFilters :: "fenv \<Rightarrow> Config \<Rightarrow> call \<Rightarrow> Reapable list \<Rightarrow> Reapable list" where
  "applyFilters e c k filterables =
     (case filterLoop e c k 0 filterables [] [] of
        Inl p \<Rightarrow> []
      | Inr DefaultReturn \<Rightarrow> []
      | Inr (Finished gs whitelistedCount) \<Rightarrow> gs)"

text \<open>
  A statistic is its name, its value and its tags. The whitelist statistics are
  posted after the loop, one per counter, when the loop ran to its end.
\<close>

type_synonym statistic = "string \<times> nat \<times> string list"

definition applyFilters_statistics ::
  "fenv \<Rightarrow> Config \<Rightarrow> call \<Rightarrow> Reapable list \<Rightarrow> statistic list" where
  "applyFilters_statistics e c k filterables =
     (case filterLoop e c k 0 filterables [] [] of
        Inr (Finished gs whitelistedCount) \<Rightarrow>
          map (\<lambda>(stat, n). (stat, n, [EventTag c])) whitelistedCount
      | _ \<Rightarrow> [])"

section \<open>reap\<close>

text \<open>
  \<open>reap\<close> starts from the two results of \<open>allReapables\<close>: \<open>owned\<close>, a Go map from
  owner address to resources (an association list with distinct owners, in the order
  the \<open>range\<close> visits it), and the slice \<open>unowned\<close>.

  The first loop filters each owner's resources; \<open>j\<close> counts the calls of
  \<open>applyFilters\<close>. A result of length one is appended to \<open>unowned\<close>; any other
  result, the empty one too, is appended to \<open>filtered\<close> and stored in
  \<open>filteredOwned\<close> under the owner.
\<close>

fun ownedLoop ::
  "fenv \<Rightarrow> Config \<Rightarrow> nat \<Rightarrow> (string \<times> Reapable list) list
   \<Rightarrow> Reapable list \<Rightarrow> Reapable list \<Rightarrow> (string \<times> Reapable list) list
   \<Rightarrow> Reapable list \<times> Reapable list \<times> (string \<times> Reapable list) list" where
  "ownedLoop e c j [] unowned filtered filteredOwned = (unowned, filtered, filteredOwned)"
| "ownedLoop e c j ((owner, ownerMap) # owned) unowned filtered filteredOwned =
     (let resources = applyFilters e c [j] ownerMap in
      if length resources = 1
      then ownedLoop e c (Suc j) owned (unowned @ resources) filtered filteredOwned
      else ownedLoop e c (Suc j) owned unowned (filtered @ resources)
             (AList.update owner resources filteredOwned))"

text \<open>
  The second loop switches on the kind of every filtered resource, counts it per
  region and hands it to \<open>reapInstance\<close>, \<open>reapAutoScalingGroup\<close>, ..., which advance
  its state when due and put it into the registry. \<open>reaped\<close> lists the resources
  handed over, in order; the state change itself is made by \<open>IncrementState\<close> of the
  \<open>state\<close> package, not at hand, and is not part of the model.
\<close>

record Sums =
  filteredInstanceSums :: "(Region \<times> nat) list"
  filteredASGSums :: "(Region \<times> nat) list"
  filteredSecurityGroupSums :: "(Region \<times> nat) list"
  filteredCloudformationSums :: "(Region \<times> nat) list"
  filteredVolumeSums :: "(Region \<times> nat) list"
  reaped :: "Reapable list"

definition noSums :: Sums where
  "noSums = \<lparr>filteredInstanceSums = [], filteredASGSums = [],
     filteredSecurityGroupSums = [], filteredCloudformationSums = [],
     filteredVolumeSums = [], reaped = []\<rparr>"

fun tally :: "Reapable \<Rightarrow> Sums \<Rightarrow> Sums" where
  "tally (Instance t) s =
     s\<lparr>filteredInstanceSums := incr (Region t) (filteredInstanceSums s),
       reaped := reaped s @ [Instance t]\<rparr>"
| "tally (ASG t) s =
     s\<lparr>filteredASGSums := incr (Region t) (filteredASGSums s),
       reaped := reaped s @ [ASG t]\<rparr>"
| "tally (SecurityGroup t) s =
     s\<lparr>filteredSecurityGroupSums := incr (Region t) (filteredSecurityGroupSums s),
       reaped := reaped s @ [SecurityGroup t]\<rparr>"
| "tally (Cloudformation t) s =
     s\<lparr>filteredCloudformationSums := incr (Region t) (filteredCloudformationSums s),
       reaped := reaped s @ [Cloudformation t]\<rparr>"
| "tally (Volume t) s =
     s\<lparr>filteredVolumeSums := incr (Region t) (filteredVolumeSums s),
       reaped := reaped s @ [Volume t]\<rparr>"
| "tally (OtherKind t) s = s"

fun tallyLoop :: "Reapable list \<Rightarrow> Sums \<Rightarrow> Sums" where
  "tallyLoop [] s = s"
| "tallyLoop (f # fs) s = tallyLoop fs (tally f s)"

text \<open>
  What \<open>reap\<close> has computed when it starts its goroutines: \<open>unownedList\<close> is the
  slice \<open>unowned\<close> after the first loop, with the single survivors appended. The
  unowned list is filtered by the call of \<open>applyFilters\<close> that follows those of the
  owners.
\<close>

record Reap =
  unownedList :: "Reapable list"
  filtered :: "Reapable list"
  filteredOwned :: "(string \<times> Reapable list) list"
  filteredUnowned :: "Reapable list"
  sums :: Sums

definition reap ::
  "fenv \<Rightarrow> Config \<Rightarrow> (string \<times> Reapable list) list \<Rightarrow> Reapable list \<Rightarrow> Reap" where
  "reap e c owned unowned =
     (case ownedLoop e c 0 owned unowned [] [] of
        (unowned', filtered', filteredOwned') \<Rightarrow>
          (let filteredUnowned' = applyFilters e c [length owned] unowned';
               filtered'' = filtered' @ filteredUnowned'
           in \<lparr>unownedList = unowned', filtered = filtered'',
                filteredOwned = filteredOwned', filteredUnowned = filteredUnowned',
                sums = tallyLoop filtered'' noSums\<rparr>))"

text \<open>
  The first goroutine started at the end of \<open>reap\<close>. It ranges over
  \<open>filteredOwned\<close>: \<open>batchLoop\<close> takes the buckets in the order the range visits them
  and returns the events handed to \<open>NewBatchReapableEvent\<close>. An empty bucket leaves
  the loop by \<open>break\<close>. An event that fails is logged and the loop goes on, so every
  event listed is attempted. Then one \<open>NewReapableEvent\<close> per resource of
  \<open>filteredUnowned\<close>.
\<close>

datatype event =
    BatchReapableEvent "Reapable list" "string list"
  | ReapableEvent Reapable "string list"

fun batchLoop :: "Config \<Rightarrow> Reapable list list \<Rightarrow> event list" where
  "batchLoop c [] = []"
| "batchLoop c (ownedReapables # rest) =
     (if length ownedReapables < 1 then []
      else BatchReapableEvent ownedReapables [EventTag c] # batchLoop c rest)"

definition dispatchEvents ::
  "Config \<Rightarrow> (string \<times> Reapable list) list \<Rightarrow> Reapable list \<Rightarrow> event list" where
  "dispatchEvents c filteredOwned' filteredUnowned' =
     batchLoop c (map snd filteredOwned')
     @ map (\<lambda>r. ReapableEvent r [EventTag c]) filteredUnowned'"

text \<open>The resources an event notifies about.\<close>

fun eventResources :: "event \<Rightarrow> Reapable list" where
  "eventResources (BatchReapableEvent rs tags) = rs"
| "eventResources (ReapableEvent r tags) = [r]"

text \<open>The errors logged by the goroutine, given which events fail.\<close>

definition dispatchErrors :: "(event \<Rightarrow> string option) \<Rightarrow> event list \<Rightarrow> string list" where
  "dispatchErrors deliver events = List.map_filter deliver events"

text \<open>
  The second goroutine posts the filtered counts: it ranges over the sums of
  instances, of autoscaling groups, of cloudformations and of security groups.
\<close>

definition regionStatistics ::
  "Config \<Rightarrow> string \<Rightarrow> (Region \<times> nat) list \<Rightarrow> statistic list" where
  "regionStatistics c name regionSums =
     map (\<lambda>(region, n). (name, n, [''region:'' @ region, EventTag c])) regionSums"

definition postStatistics :: "Config \<Rightarrow> Sums \<Rightarrow> statistic list" where
  "postStatistics c s =
     regionStatistics c ''reaper.instances.filtered'' (filteredInstanceSums s)
     @ regionStatistics c ''reaper.asgs.filtered'' (filteredASGSums s)
     @ regionStatistics c ''reaper.cloudformations.filtered'' (filteredCloudformationSums s)
     @ regionStatistics c ''reaper.securitygroups.filtered'' (filteredSecurityGroupSums s)"

section \<open>LoadState and the saved states\<close>

text \<open>
  \<open>savedstates\<close> is a \<open>map[Region]map[ID]*state.State\<close>. An absent region is a nil
  inner map: reading it yields nothing, assigning to an entry of it panics.
\<close>

type_synonym savedstates = "Region \<rightharpoonup> (ID \<rightharpoonup> ReaperState)"

text \<open>\<open>strings.Split(s, sep)\<close> for a separator of one byte.\<close>

fun Split :: "string \<Rightarrow> char \<Rightarrow> string list" where
  "Split [] sep = [[]]"
| "Split (ch # s) sep =
     (if ch = sep then [] # Split s sep
      else (case Split s sep of [] \<Rightarrow> [[ch]] | w # ws \<Rightarrow> (ch # w) # ws))"

text \<open>
  \<open>for _, region := range config.AWS.Regions { savedstates[region] = make(...) }\<close>.
\<close>

fun initSavedStates :: "string list \<Rightarrow> savedstates \<Rightarrow> savedstates" where
  "initSavedStates [] m = m"
| "initSavedStates (region # regions) m = initSavedStates regions (m(region \<mapsto> Map.empty))"

text \<open>
  The scanner loop, over the lines of the file. \<open>state.NewStateWithTag\<close> is outside
  the code at hand and a parameter. The log collects the malformed lines.
\<close>

fun scanLoop ::
  "(string \<Rightarrow> ReaperState) \<Rightarrow> string list \<Rightarrow> savedstates \<Rightarrow> string list
   \<Rightarrow> panic + (savedstates \<times> string list)" where
  "scanLoop NewStateWithTag [] m logged = Inr (m, logged)"
| "scanLoop NewStateWithTag (text # rest) m logged =
     (let line = Split text CHR '','' in
      if length line \<noteq> 3
      then scanLoop NewStateWithTag rest m (logged @ [''Malformed saved state '' @ text])
      else
        (let region = line ! 0; rid = line ! 1; savedState = NewStateWithTag (line ! 2) in
         case m region of
           None \<Rightarrow> Inl NilMapAssignment
         | Some inner \<Rightarrow>
             scanLoop NewStateWithTag rest (m(region \<mapsto> inner(rid \<mapsto> savedState))) logged))"

text \<open>
  \<open>LoadState\<close>. The file is the list of its lines, or \<open>None\<close> when it cannot be
  opened: the scanner then yields no line and the failure is logged at the end.
\<close>

definition LoadState ::
  "Config \<Rightarrow> (string \<Rightarrow> ReaperState) \<Rightarrow> string list option
   \<Rightarrow> panic + (savedstates \<times> string list)" where
  "LoadState c NewStateWithTag file =
     (let m = initSavedStates (Regions c) Map.empty;
          lines = (case file of None \<Rightarrow> [] | Some ls \<Rightarrow> ls)
      in case scanLoop NewStateWithTag lines m [] of
           Inl p \<Rightarrow> Inl p
         | Inr (m', logged) \<Rightarrow>
             Inr (m', logged @ [if file = None then ''Unable to open StateFile ''
                                else ''States loaded from '']))"

text \<open>
  The restore at the head of the loops of \<open>getInstances\<close>, \<open>getVolumes\<close>, ...:
  \<open>savedstate, ok := savedstates[r.Region][r.ID]; if ok { r.SetReaperState(savedstate) }\<close>.
\<close>

definition restoreSavedState :: "savedstates \<Rightarrow> 'a Resource_scheme \<Rightarrow> 'a Resource_scheme" where
  "restoreSavedState ss r =
     (case ss (Region r) of
        None \<Rightarrow> r
      | Some inner \<Rightarrow>
          (case inner (ID r) of None \<Rightarrow> r | Some savedstate \<Rightarrow> r\<lparr>reaperState := savedstate\<rparr>))"

section \<open>aws/http.go\<close>

text \<open>
  The jobs of the \<open>token\<close> package, and what the link constructors call outside their
  file, as parameters: \<open>token.Tokenize\<close> (a token or an error), \<open>url.QueryEscape\<close>,
  \<open>url.Values.Encode\<close> on the pairs added, and \<open>time.Duration.String\<close>.
\<close>

datatype Job =
    ScheduleJob string string string string
  | TerminateJob string string
  | DelayJob string string int
  | WhitelistJob string string
  | StopJob string string
  | ForceStopJob string string

record urlenv =
  Tokenize :: "string \<Rightarrow> Job \<Rightarrow> string + string"
  QueryEscape :: "string \<Rightarrow> string"
  Encode :: "(string \<times> string) list \<Rightarrow> string"
  DurationString :: "int \<Rightarrow> string"

text \<open>
  \<open>makeURL\<close> returns the lines it logged and either a panic or the URL. The slice
  expression \<open>host[len(host)-1:]\<close> panics when \<open>len(host) - 1\<close> is negative, where
  subtraction on \<open>nat\<close> would stop at zero.
\<close>

definition makeURL ::
  "urlenv \<Rightarrow> Config \<Rightarrow> string \<Rightarrow> string \<Rightarrow> string \<Rightarrow> string list \<times> (panic + string)" where
  "makeURL u c host action token =
     (let logged = (if host = [] then [''makeURL: host is empty''] else []);
          action' = QueryEscape u action;
          token' = QueryEscape u token;
          vals = [(Action (HTTP c), action'), (Token (HTTP c), token')]
      in if int (length host) - 1 < 0 then (logged, Inl SliceBoundsOutOfRange)
         else if drop (length host - 1) host = ''/''
         then (logged, Inr (host @ ''?'' @ Encode u vals))
         else (logged, Inr (host @ ''/?'' @ Encode u vals)))"

text \<open>
  The common shape of the six constructors: tokenize the job; on an error log (two
  of them do) and return the error; otherwise return what \<open>makeURL\<close> returns. The
  result is the log and either a panic or Go's pair, an error or the link.
\<close>

definition tokenizedLink ::
  "urlenv \<Rightarrow> Config \<Rightarrow> string \<Rightarrow> Job \<Rightarrow> string list \<Rightarrow> string \<Rightarrow> string
   \<Rightarrow> string list \<times> (panic + (string + string))" where
  "tokenizedLink u c tokenSecret job onError apiURL action =
     (case Tokenize u tokenSecret job of
        Inl err \<Rightarrow> (onError, Inr (Inl err))
      | Inr tok \<Rightarrow>
          (case makeURL u c apiURL action tok of
             (logged, Inl p) \<Rightarrow> (logged, Inl p)
           | (logged, Inr link) \<Rightarrow> (logged, Inr (Inr link))))"

definition makeScheduleLink ::
  "urlenv \<Rightarrow> Config \<Rightarrow> Region \<Rightarrow> ID \<Rightarrow> string \<Rightarrow> string \<Rightarrow> string \<Rightarrow> string
   \<Rightarrow> string list \<times> (panic + (string + string))" where
  "makeScheduleLink u c region rid tokenSecret apiURL scaleDownSchedule scaleUpSchedule =
     tokenizedLink u c tokenSecret (ScheduleJob region rid scaleDownSchedule scaleUpSchedule)
       [] apiURL ''schedule''"

definition makeTerminateLink ::
  "urlenv \<Rightarrow> Config \<Rightarrow> Region \<Rightarrow> ID \<Rightarrow> string \<Rightarrow> string
   \<Rightarrow> string list \<times> (panic + (string + string))" where
  "makeTerminateLink u c region rid tokenSecret apiURL =
     tokenizedLink u c tokenSecret (TerminateJob region rid) [] apiURL ''terminate''"

definition makeIgnoreLink ::
  "urlenv \<Rightarrow> Config \<Rightarrow> Region \<Rightarrow> ID \<Rightarrow> string \<Rightarrow> string \<Rightarrow> int
   \<Rightarrow> string list \<times> (panic + (string + string))" where
  "makeIgnoreLink u c region rid tokenSecret apiURL duration =
     tokenizedLink u c tokenSecret (DelayJob region rid duration) [] apiURL
       (''delay_'' @ DurationString u duration)"

definition makeWhitelistLink ::
  "urlenv \<Rightarrow> Config \<Rightarrow> Region \<Rightarrow> ID \<Rightarrow> string \<Rightarrow> string
   \<Rightarrow> string list \<times> (panic + (string + string))" where
  "makeWhitelistLink u c region rid tokenSecret apiURL =
     tokenizedLink u c tokenSecret (WhitelistJob region rid)
       [''Error creating whitelist link: ''] apiURL ''whitelist''"

definition makeStopLink ::
  "urlenv \<Rightarrow> Config \<Rightarrow> Region \<Rightarrow> ID \<Rightarrow> string \<Rightarrow> string
   \<Rightarrow> string list \<times> (panic + (string + string))" where
  "makeStopLink u c region rid tokenSecret apiURL =
     tokenizedLink u c tokenSecret (StopJob region rid)
       [''Error creating ScaleToZero link: ''] apiURL ''stop''"

definition makeForceStopLink ::
  "urlenv \<Rightarrow> Config \<Rightarrow> Region \<Rightarrow> ID \<Rightarrow> string \<Rightarrow> string
   \<Rightarrow> string list \<times> (panic + (string + string))" where
  "makeForceStopLink u c region rid tokenSecret apiURL =
     tokenizedLink u c tokenSecret (ForceStopJob region rid)
       [''Error creating ScaleToZero link: ''] apiURL ''stop''"

section \<open>Sample values\<close>

text \<open>
  Concrete values at which the theorems below are evaluated. \<open>sampleEnv\<close> reads the
  numerals 0 and 1, the booleans \<open>true\<close> and \<open>false\<close> and the duration \<open>1h\<close>, has a
  clock that stands at 0, and lets the kinds without a file answer false to every
  function name that is left to them, as the \<open>default\<close> branch of a \<open>Filter\<close> switch
  does.
\<close>

definition sampleEnv :: fenv where
  "sampleEnv =
     \<lparr>Int64Value = (\<lambda>f i. case argument f i of
          Inl p \<Rightarrow> Inl p
        | Inr s \<Rightarrow> Inr (if s = ''0'' then Inr 0 else if s = ''1'' then Inr 1
                       else Inl ''invalid syntax'')),
      BoolValue = (\<lambda>f i. case argument f i of
          Inl p \<Rightarrow> Inl p
        | Inr s \<Rightarrow> Inr (if s = ''true'' then Inr True else if s = ''false'' then Inr False
                       else Inl ''invalid syntax'')),
      ParseDuration = (\<lambda>s. if s = ''1h'' then Inr 3600000000000
                           else Inl ''invalid duration''),
      Now = (\<lambda>k. 0),
      kindFilter = (\<lambda>k x f. Inr False)\<rparr>"

definition noGroups :: KindConfig where
  "noGroups = \<lparr>Enabled = True, FilterGroups = []\<rparr>"

definition sampleConfig :: Config where
  "sampleConfig =
     \<lparr>Regions = [''us-east-1''], WhitelistTag = ''REAPER_SPARE_ME'', EventTag = ''app:reaper'',
      Instances_cfg = noGroups, AutoScalingGroups_cfg = noGroups,
      Cloudformations_cfg = noGroups, SecurityGroups_cfg = noGroups, Volumes_cfg = noGroups,
      HTTP = \<lparr>TokenSecret = ''secret'', APIURL = [], Action = ''a'', Token = ''t''\<rparr>\<rparr>"

text \<open>
  The same configuration with one filter group for autoscaling groups whose only
  filter, \<open>Tagged\<close>, has no argument.
\<close>

definition brokenConfig :: Config where
  "brokenConfig =
     sampleConfig\<lparr>AutoScalingGroups_cfg :=
       \<lparr>Enabled = True, FilterGroups = [(''broken'', [NewFilter ''Tagged'' []])]\<rparr>\<rparr>"

text \<open>
  The same configuration with one group for autoscaling groups that asks for
  \<open>IsDependency false\<close>.
\<close>

definition guardedConfig :: Config where
  "guardedConfig =
     sampleConfig\<lparr>AutoScalingGroups_cfg :=
       \<lparr>Enabled = True,
        FilterGroups = [(''unused'', [NewFilter ''IsDependency'' [''false'']])]\<rparr>\<rparr>"

text \<open>
  The same configuration with one group for autoscaling groups that asks for the
  region \<open>us-east-1\<close>.
\<close>

definition regionConfig :: Config where
  "regionConfig =
     sampleConfig\<lparr>AutoScalingGroups_cfg :=
       \<lparr>Enabled = True, FilterGroups = [(''east'', [NewFilter ''Region'' [''us-east-1'']])]\<rparr>\<rparr>"

definition sampleResource :: "ID \<Rightarrow> Resource" where
  "sampleResource rid =
     \<lparr>Region = ''us-east-1'', ID = rid, Name = rid, Tags = Map.empty,
      Dependency = False, IsInCloudformation = False,
      reaperState = \<lparr>State = ''first'', Until = 0\<rparr>\<rparr>"

definition sampleGroup :: "ID \<Rightarrow> AutoScalingGroup" where
  "sampleGroup rid =
     \<lparr>Region = ''us-east-1'', ID = rid, Name = rid, Tags = Map.empty,
      Dependency = False, IsInCloudformation = False,
      reaperState = \<lparr>State = ''first'', Until = 0\<rparr>,
      DesiredCapacity = None, CreatedTime = None, Instances = []\<rparr>"

text \<open>
  An autoscaling group that carries the whitelist tag, and one that is marked as a
  dependency.
\<close>

definition sparedGroup :: "ID \<Rightarrow> AutoScalingGroup" where
  "sparedGroup rid = (sampleGroup rid)\<lparr>Tags := [''REAPER_SPARE_ME'' \<mapsto> ''true'']\<rparr>"

definition dependentGroup :: "ID \<Rightarrow> AutoScalingGroup" where
  "dependentGroup rid = (sampleGroup rid)\<lparr>Dependency := True\<rparr>"

text \<open>
  A clock that reads one second before the hour during the first call of
  \<open>applyFilters\<close> and one second after the hour during the later ones; a
  configuration whose only group for autoscaling groups asks for a creation within
  the last hour; and a group created at time 0.
\<close>

definition driftEnv :: fenv where
  "driftEnv =
     sampleEnv\<lparr>Now := (\<lambda>k. case k of [] \<Rightarrow> 0
                              | j # rest \<Rightarrow> if j = 0 then 3599000000000 else 3601000000000)\<rparr>"

definition recentConfig :: Config where
  "recentConfig =
     sampleConfig\<lparr>AutoScalingGroups_cfg :=
       \<lparr>Enabled = True,
        FilterGroups = [(''recent'', [NewFilter ''CreatedTimeInTheLast'' [''1h'']])]\<rparr>\<rparr>"

definition youngGroup :: "ID \<Rightarrow> AutoScalingGroup" where
  "youngGroup rid = (sampleGroup rid)\<lparr>CreatedTime := Some 0\<rparr>"

definition dependentVolume :: "ID \<Rightarrow> Resource" where
  "dependentVolume rid = (sampleResource rid)\<lparr>Dependency := True\<rparr>"

text \<open>
  The configuration in which the groups of volumes, too, ask for \<open>IsDependency false\<close>.
\<close>

definition guardedVolumesConfig :: Config where
  "guardedVolumesConfig =
     guardedConfig\<lparr>Volumes_cfg :=
       \<lparr>Enabled = True,
        FilterGroups = [(''unattached'', [NewFilter ''IsDependency'' [''false'']])]\<rparr>\<rparr>"

definition sampleURLEnv :: urlenv where
  "sampleURLEnv =
     \<lparr>Tokenize = (\<lambda>secret job. Inr ''token''), QueryEscape = (\<lambda>s. s),
      Encode = (\<lambda>vals. concat (map (\<lambda>(k, v). k @ ''='' @ v @ ''&'') vals)),
      DurationString = (\<lambda>d. ''24h0m0s'')\<rparr>"

text \<open>The same with a \<open>Tokenize\<close> that fails.\<close>

definition failingURLEnv :: urlenv where
  "failingURLEnv = sampleURLEnv\<lparr>Tokenize := (\<lambda>secret job. Inl ''tokenize failed'')\<rparr>"

definition sampleNewStateWithTag :: "string \<Rightarrow> ReaperState" where
  "sampleNewStateWithTag tag = \<lparr>State = takeWhile (\<lambda>ch. ch \<noteq> CHR ''|'') tag, Until = 0\<rparr>"

section \<open>Size filters of a group without desired capacity\<close>

lemma sizeCase_never:
  "(\<And>i. \<not> cmp i) \<Longrightarrow> Int64Value e f 0 = Inr r \<Longrightarrow> sizeCase e f cmp = Inr False"
  by (simp add: sizeCase_def split: sum.splits)

text \<open>
  C10. An AutoScalingGroup whose DesiredCapacity is nil fails each of the five size
  comparisons at every int64 argument, and \<open>Filter\<close> returns false, not matched, for
  each of the five size functions whenever \<open>Int64Value(0)\<close> returns, a value or an error.
\<close>

theorem C10_size_filters_nil_capacity:
  assumes "DesiredCapacity a = None"
  shows "(\<not> sizeGreaterThan a i \<and> \<not> sizeLessThan a i \<and> \<not> sizeEqualTo a i
          \<and> \<not> sizeGreaterThanOrEqualTo a i \<and> \<not> sizeLessThanOrEqualTo a i)
         \<and> (Function f \<in> {''SizeGreaterThan'', ''SizeLessThan'', ''SizeEqualTo'',
               ''SizeGreaterThanOrEqualTo'', ''SizeLessThanOrEqualTo''}
              \<longrightarrow> Int64Value e f 0 = Inr r
              \<longrightarrow> AutoScalingGroup_Filter e k a f = Inr False)"
proof -
  have never: "\<And>j. \<not> sizeGreaterThan a j" "\<And>j. \<not> sizeLessThan a j"
      "\<And>j. \<not> sizeEqualTo a j" "\<And>j. \<not> sizeGreaterThanOrEqualTo a j"
      "\<And>j. \<not> sizeLessThanOrEqualTo a j"
    using assms
    by (simp_all add: sizeGreaterThan_def sizeLessThan_def sizeEqualTo_def
        sizeGreaterThanOrEqualTo_def sizeLessThanOrEqualTo_def)
  have filter: "AutoScalingGroup_Filter e k a f = Inr False"
    if fn: "Function f \<in> {''SizeGreaterThan'', ''SizeLessThan'', ''SizeEqualTo'',
           ''SizeGreaterThanOrEqualTo'', ''SizeLessThanOrEqualTo''}"
      and iv: "Int64Value e f 0 = Inr r"
  proof -
    have c: "\<And>cmp. (\<And>j. \<not> cmp j) \<Longrightarrow> sizeCase e f cmp = Inr False"
      using iv by (rule sizeCase_never [rotated])
    from fn consider "Function f = ''SizeGreaterThan''" | "Function f = ''SizeLessThan''"
      | "Function f = ''SizeEqualTo''" | "Function f = ''SizeGreaterThanOrEqualTo''"
      | "Function f = ''SizeLessThanOrEqualTo''"
      by auto
    then show ?thesis
      by cases (simp_all add: AutoScalingGroup_Filter_def c never)
  qed
  show ?thesis using never filter by blast
qed

theorem C10_size_filters_nil_capacity_witness:
  "DesiredCapacity (sampleGroup ''asg-1'') = None
   \<and> \<not> sizeEqualTo (sampleGroup ''asg-1'') 0
   \<and> \<not> sizeLessThan (sampleGroup ''asg-1'') 1
   \<and> AutoScalingGroup_Filter sampleEnv [0, 0, 0, 0] (sampleGroup ''asg-1'')
        (NewFilter ''SizeEqualTo'' [''0'']) = Inr False
   \<and> AutoScalingGroup_Filter sampleEnv [0, 0, 0, 0] (sampleGroup ''asg-1'')
        (NewFilter ''SizeLessThan'' [''1'']) = Inr False"
proof -
  have nil: "DesiredCapacity (sampleGroup ''asg-1'') = None"
    by (simp add: sampleGroup_def)
  have v0: "Int64Value sampleEnv (NewFilter ''SizeEqualTo'' [''0'']) 0 = Inr (Inr 0)"
    by (simp add: sampleEnv_def NewFilter_def argument_def)
  have v1: "Int64Value sampleEnv (NewFilter ''SizeLessThan'' [''1'']) 0 = Inr (Inr 1)"
    by (simp add: sampleEnv_def NewFilter_def argument_def)
  show ?thesis
    using nil
      C10_size_filters_nil_capacity [OF nil, where i = 0
        and f = "NewFilter ''SizeEqualTo'' [''0'']" and e = sampleEnv and r = "Inr 0"
        and k = "[0, 0, 0, 0]"]
      C10_size_filters_nil_capacity [OF nil, where i = 1
        and f = "NewFilter ''SizeLessThan'' [''1'']" and e = sampleEnv and r = "Inr 1"
        and k = "[0, 0, 0, 0]"]
      v0 v1
    by (simp add: NewFilter_def)
qed

section \<open>Links with an empty API URL\<close>

lemma makeURL_empty_host:
  "makeURL u c [] action token = ([''makeURL: host is empty''], Inl SliceBoundsOutOfRange)"
  by (simp add: makeURL_def)

lemma tokenizedLink_empty_host:
  "Tokenize u secret job = Inr tok \<Longrightarrow>
   tokenizedLink u c secret job onError [] action
     = ([''makeURL: host is empty''], Inl SliceBoundsOutOfRange)"
  by (simp add: tokenizedLink_def makeURL_empty_host)

lemma tokenizedLink_error:
  "Tokenize u secret job = Inl err \<Longrightarrow>
   tokenizedLink u c secret job onError apiURL action = (onError, Inr (Inl err))"
  by (simp add: tokenizedLink_def)

text \<open>
  C8, as the code has it. With the empty string as API base URL, \<open>makeURL\<close> logs that
  the host is empty and then panics at the slice expression \<open>host[len(host)-1:]\<close>; it
  returns neither a URL nor an error. Each of the six link constructors calls
  \<open>makeURL\<close>, and panics the same way, when \<open>Tokenize\<close> returned a token; when
  \<open>Tokenize\<close> returned an error the constructor returns that error and does not
  panic.
\<close>

theorem C8_empty_api_url_panics_after_tokenizing:
  "makeURL u c [] action token = ([''makeURL: host is empty''], Inl SliceBoundsOutOfRange)
   \<and> (Tokenize u secret (TerminateJob region rid) = Inr t1 \<longrightarrow>
        makeTerminateLink u c region rid secret []
          = ([''makeURL: host is empty''], Inl SliceBoundsOutOfRange))
   \<and> (Tokenize u secret (StopJob region rid) = Inr t2 \<longrightarrow>
        makeStopLink u c region rid secret []
          = ([''makeURL: host is empty''], Inl SliceBoundsOutOfRange))
   \<and> (Tokenize u secret (ForceStopJob region rid) = Inr t3 \<longrightarrow>
        makeForceStopLink u c region rid secret []
          = ([''makeURL: host is empty''], Inl SliceBoundsOutOfRange))
   \<and> (Tokenize u secret (WhitelistJob region rid) = Inr t4 \<longrightarrow>
        makeWhitelistLink u c region rid secret []
          = ([''makeURL: host is empty''], Inl SliceBoundsOutOfRange))
   \<and> (Tokenize u secret (DelayJob region rid duration) = Inr t5 \<longrightarrow>
        makeIgnoreLink u c region rid secret [] duration
          = ([''makeURL: host is empty''], Inl SliceBoundsOutOfRange))
   \<and> (Tokenize u secret (ScheduleJob region rid down up) = Inr t6 \<longrightarrow>
        makeScheduleLink u c region rid secret [] down up
          = ([''makeURL: host is empty''], Inl SliceBoundsOutOfRange))
   \<and> (Tokenize u secret (TerminateJob region rid) = Inl e1 \<longrightarrow>
        makeTerminateLink u c region rid secret [] = ([], Inr (Inl e1)))
   \<and> (Tokenize u secret (StopJob region rid) = Inl e2 \<longrightarrow>
        makeStopLink u c region rid secret []
          = ([''Error creating ScaleToZero link: ''], Inr (Inl e2)))
   \<and> (Tokenize u secret (ForceStopJob region rid) = Inl e3 \<longrightarrow>
        makeForceStopLink u c region rid secret []
          = ([''Error creating ScaleToZero link: ''], Inr (Inl e3)))
   \<and> (Tokenize u secret (WhitelistJob region rid) = Inl e4 \<longrightarrow>
        makeWhitelistLink u c region rid secret []
          = ([''Error creating whitelist link: ''], Inr (Inl e4)))
   \<and> (Tokenize u secret (DelayJob region rid duration) = Inl e5 \<longrightarrow>
        makeIgnoreLink u c region rid secret [] duration = ([], Inr (Inl e5)))
   \<and> (Tokenize u secret (ScheduleJob region rid down up) = Inl e6 \<longrightarrow>
        makeScheduleLink u c region rid secret [] down up = ([], Inr (Inl e6)))"
  by (simp add: makeURL_empty_host tokenizedLink_empty_host tokenizedLink_error
      makeTerminateLink_def makeStopLink_def makeForceStopLink_def makeWhitelistLink_def
      makeIgnoreLink_def makeScheduleLink_def)

theorem C8_empty_api_url_panics_after_tokenizing_witness:
  "APIURL (HTTP sampleConfig) = []
   \<and> makeURL sampleURLEnv sampleConfig (APIURL (HTTP sampleConfig)) ''terminate'' ''token''
       = ([''makeURL: host is empty''], Inl SliceBoundsOutOfRange)
   \<and> makeTerminateLink sampleURLEnv sampleConfig ''us-east-1'' ''i-1'' ''secret'' []
       = ([''makeURL: host is empty''], Inl SliceBoundsOutOfRange)
   \<and> makeStopLink sampleURLEnv sampleConfig ''us-east-1'' ''i-1'' ''secret'' []
       = ([''makeURL: host is empty''], Inl SliceBoundsOutOfRange)
   \<and> makeForceStopLink sampleURLEnv sampleConfig ''us-east-1'' ''i-1'' ''secret'' []
       = ([''makeURL: host is empty''], Inl SliceBoundsOutOfRange)
   \<and> makeWhitelistLink sampleURLEnv sampleConfig ''us-east-1'' ''i-1'' ''secret'' []
       = ([''makeURL: host is empty''], Inl SliceBoundsOutOfRange)
   \<and> makeIgnoreLink sampleURLEnv sampleConfig ''us-east-1'' ''i-1'' ''secret'' [] 86400000000000
       = ([''makeURL: host is empty''], Inl SliceBoundsOutOfRange)
   \<and> makeScheduleLink sampleURLEnv sampleConfig ''us-east-1'' ''i-1'' ''secret'' []
         ''0 0 20 * * *'' ''0 0 8 * * *''
       = ([''makeURL: host is empty''], Inl SliceBoundsOutOfRange)
   \<and> makeWhitelistLink failingURLEnv sampleConfig ''us-east-1'' ''i-1'' ''secret'' []
       = ([''Error creating whitelist link: ''], Inr (Inl ''tokenize failed''))"
proof -
  have tok: "\<And>job. Tokenize sampleURLEnv ''secret'' job = Inr ''token''"
    by (simp add: sampleURLEnv_def)
  have fail: "\<And>job. Tokenize failingURLEnv ''secret'' job = Inl ''tokenize failed''"
    by (simp add: failingURLEnv_def)
  have url: "APIURL (HTTP sampleConfig) = []"
    by (simp add: sampleConfig_def)
  show ?thesis
    using C8_empty_api_url_panics_after_tokenizing [where u = sampleURLEnv
        and c = sampleConfig and action = "''terminate''" and token = "''token''"
        and secret = "''secret''" and region = "''us-east-1''" and rid = "''i-1''"
        and ?t1.0 = "''token''" and ?t2.0 = "''token''" and ?t3.0 = "''token''"
        and ?t4.0 = "''token''" and ?t5.0 = "''token''" and ?t6.0 = "''token''"
        and duration = 86400000000000
        and down = "''0 0 20 * * *''" and up = "''0 0 8 * * *''"]
      C8_empty_api_url_panics_after_tokenizing [where u = failingURLEnv
        and c = sampleConfig and secret = "''secret''" and region = "''us-east-1''"
        and rid = "''i-1''" and ?e4.0 = "''tokenize failed''"]
      tok fail url
    by simp
qed

text \<open>
  C8 as stated fails: with the empty API URL and a \<open>Tokenize\<close> that returns an error,
  no constructor panics; each returns the error of \<open>Tokenize\<close> and \<open>makeURL\<close> is not
  called.
\<close>

theorem C8_failing_tokenize_counterexample:
  "Tokenize failingURLEnv ''secret'' (TerminateJob ''us-east-1'' ''i-1'') = Inl ''tokenize failed''
   \<and> makeTerminateLink failingURLEnv sampleConfig ''us-east-1'' ''i-1'' ''secret'' []
       = ([], Inr (Inl ''tokenize failed''))
   \<and> makeStopLink failingURLEnv sampleConfig ''us-east-1'' ''i-1'' ''secret'' []
       = ([''Error creating ScaleToZero link: ''], Inr (Inl ''tokenize failed''))
   \<and> makeForceStopLink failingURLEnv sampleConfig ''us-east-1'' ''i-1'' ''secret'' []
       = ([''Error creating ScaleToZero link: ''], Inr (Inl ''tokenize failed''))
   \<and> makeWhitelistLink failingURLEnv sampleConfig ''us-east-1'' ''i-1'' ''secret'' []
       = ([''Error creating whitelist link: ''], Inr (Inl ''tokenize failed''))
   \<and> makeIgnoreLink failingURLEnv sampleConfig ''us-east-1'' ''i-1'' ''secret'' [] 86400000000000
       = ([], Inr (Inl ''tokenize failed''))
   \<and> makeScheduleLink failingURLEnv sampleConfig ''us-east-1'' ''i-1'' ''secret'' []
         ''0 0 20 * * *'' ''0 0 8 * * *''
       = ([], Inr (Inl ''tokenize failed''))"
  by (simp add: failingURLEnv_def sampleURLEnv_def tokenizedLink_def makeTerminateLink_def
      makeStopLink_def makeForceStopLink_def makeWhitelistLink_def makeIgnoreLink_def
      makeScheduleLink_def)

section \<open>LoadState on a region that is not configured\<close>

lemma dom_initSavedStates: "dom (initSavedStates regions m) = dom m \<union> set regions"
  by (induction regions arbitrary: m) auto

lemma scanLoop_nil_region:
  "text \<in> set lines \<Longrightarrow> length (Split text CHR '','') = 3
   \<Longrightarrow> Split text CHR '','' ! 0 \<notin> dom m
   \<Longrightarrow> scanLoop ns lines m logged = Inl NilMapAssignment"
proof (induction lines arbitrary: m logged)
  case Nil
  then show ?case by simp
next
  case (Cons l lines)
  show ?case
  proof (cases "length (Split l CHR '','') = 3")
    case False
    with Cons.prems have "text \<in> set lines" by auto
    from Cons.IH [OF this Cons.prems(2) Cons.prems(3)] False
    show ?thesis by simp
  next
    case three: True
    show ?thesis
    proof (cases "m (Split l CHR '','' ! 0)")
      case None
      with three show ?thesis by (simp add: Let_def)
    next
      case (Some inner)
      then have neq: "l \<noteq> text" using Cons.prems(3) by auto
      with Cons.prems have mem: "text \<in> set lines" by auto
      let ?m' = "m(Split l CHR '','' ! 0 \<mapsto> inner(Split l CHR '','' ! 1 \<mapsto> ns (Split l CHR '','' ! 2)))"
      have "dom ?m' = dom m" using Some by auto
      with Cons.prems(3) have "Split text CHR '','' ! 0 \<notin> dom ?m'" by simp
      then have ih: "scanLoop ns lines ?m' logged = Inl NilMapAssignment"
        by (rule Cons.IH [OF mem Cons.prems(2)])
      have step: "scanLoop ns (l # lines) m logged = scanLoop ns lines ?m' logged"
        using three Some by (simp add: Let_def)
      show ?thesis by (simp only: step ih)
    qed
  qed
qed

text \<open>
  C9. \<open>LoadState\<close> is not total on well-formed files: when some line splits into
  exactly three comma-separated fields and its first field is not a configured region,
  the inner map of that region was never made and the assignment
  \<open>savedstates[region][id] = savedState\<close> panics.
\<close>

theorem C9_LoadState_unconfigured_region_faults:
  "text \<in> set lines \<Longrightarrow> length (Split text CHR '','') = 3
   \<Longrightarrow> Split text CHR '','' ! 0 \<notin> set (Regions c)
   \<Longrightarrow> LoadState c ns (Some lines) = Inl NilMapAssignment"
  by (simp add: LoadState_def scanLoop_nil_region dom_initSavedStates)

lemma split_sample:
  "Split ''eu-west-1,i-1,first'' CHR '','' = [''eu-west-1'', ''i-1'', ''first'']"
  by simp

theorem C9_LoadState_unconfigured_region_faults_witness:
  "''eu-west-1,i-1,first'' \<in> set [''us-east-1,i-0,first'', ''eu-west-1,i-1,first'']
   \<and> length (Split ''eu-west-1,i-1,first'' CHR '','') = 3
   \<and> Split ''eu-west-1,i-1,first'' CHR '','' ! 0 \<notin> set (Regions sampleConfig)
   \<and> LoadState sampleConfig sampleNewStateWithTag
        (Some [''us-east-1,i-0,first'', ''eu-west-1,i-1,first'']) = Inl NilMapAssignment"
proof -
  have a: "''eu-west-1,i-1,first'' \<in> set [''us-east-1,i-0,first'', ''eu-west-1,i-1,first'']"
    by simp
  have b: "length (Split ''eu-west-1,i-1,first'' CHR '','') = 3"
    by (simp add: split_sample)
  have c: "Split ''eu-west-1,i-1,first'' CHR '','' ! 0 \<notin> set (Regions sampleConfig)"
    by (simp add: split_sample sampleConfig_def)
  from C9_LoadState_unconfigured_region_faults [OF a b c, of sampleNewStateWithTag] a b c
  show ?thesis by blast
qed

text \<open>
  C7. The spec's line, with a region that is not configured: \<open>LoadState\<close> does not
  load it, it panics. With the configured region the same line is loaded and the
  restore at discovery puts its state on the resource \<open>i-999\<close>.
\<close>

theorem C7_saved_line_of_unconfigured_region_is_fatal:
  "Regions sampleConfig = [''us-east-1'']
   \<and> LoadState sampleConfig sampleNewStateWithTag
        (Some [''us-west-2,i-999,FIRST|1700000000|1700003600'']) = Inl NilMapAssignment
   \<and> (case LoadState sampleConfig sampleNewStateWithTag
               (Some [''us-east-1,i-999,FIRST|1700000000|1700003600'']) of
         Inl p \<Rightarrow> False
       | Inr (m, logged) \<Rightarrow>
           reaperState (restoreSavedState m (sampleResource ''i-999''))
             = sampleNewStateWithTag ''FIRST|1700000000|1700003600'')"
  by (simp add: LoadState_def sampleConfig_def Let_def restoreSavedState_def
      sampleResource_def)

section \<open>The loop of applyFilters\<close>

text \<open>
  What the loop returns, in terms of what \<open>examine\<close> says of each resource at its
  place in the batch (\<open>enumerate i xs\<close> pairs each resource with its index): only
  resources of the input that matched are in the result; when every resource gets a
  verdict, each one that matched is in the result; and a panic on any resource leaves
  the caller with the empty result.
\<close>

lemma filterLoop_sound:
  "filterLoop e c k i xs gs wc = Inr (Finished gs' wc') \<Longrightarrow> x \<in> set gs'
   \<Longrightarrow> x \<in> set gs
       \<or> (\<exists>n. (n, x) \<in> set (enumerate i xs) \<and> examine e c (k @ [n]) x = Inr (Some Matched))"
proof (induction xs arbitrary: i gs wc)
  case Nil
  then show ?case by simp
next
  case (Cons y ys)
  from Cons.prems(1) obtain gs1 wc1 where
    step: "filterLoop e c k (Suc i) ys gs1 wc1 = Inr (Finished gs' wc')" and
    gs1: "gs1 = gs \<or> (gs1 = gs @ [y] \<and> examine e c (k @ [i]) y = Inr (Some Matched))"
    by (auto split: sum.splits option.splits verdict.splits)
  from Cons.IH [OF step Cons.prems(2)] gs1 show ?case by auto
qed

lemma applyFilters_sound:
  assumes "x \<in> set (applyFilters e c k xs)"
  shows "\<exists>n. (n, x) \<in> set (enumerate 0 xs) \<and> examine e c (k @ [n]) x = Inr (Some Matched)"
proof -
  from assms have mem: "x \<in> set (case filterLoop e c k 0 xs [] [] of Inl p \<Rightarrow> []
      | Inr DefaultReturn \<Rightarrow> [] | Inr (Finished gs wc) \<Rightarrow> gs)"
    by (simp add: applyFilters_def)
  show ?thesis
  proof (cases "filterLoop e c k 0 xs [] []")
    case (Inl p)
    with mem show ?thesis by simp
  next
    case (Inr ex)
    show ?thesis
    proof (cases ex)
      case (Finished gs wc)
      with Inr mem have "filterLoop e c k 0 xs [] [] = Inr (Finished gs wc)" and "x \<in> set gs"
        by simp_all
      from filterLoop_sound [OF this] show ?thesis by simp
    next
      case DefaultReturn
      with Inr mem show ?thesis by simp
    qed
  qed
qed

lemma applyFilters_subset: "set (applyFilters e c k xs) \<subseteq> set xs"
proof
  fix x
  assume "x \<in> set (applyFilters e c k xs)"
  from applyFilters_sound [OF this] show "x \<in> set xs"
    by (auto simp: in_set_enumerate_eq)
qed

lemma applyFilters_matched:
  "x \<in> set (applyFilters e c k xs) \<Longrightarrow> \<exists>k'. examine e c k' x = Inr (Some Matched)"
  using applyFilters_sound by blast

lemma filterLoop_runs:
  "(\<And>n y. (n, y) \<in> set (enumerate i xs) \<Longrightarrow> \<exists>v. examine e c (k @ [n]) y = Inr (Some v))
   \<Longrightarrow> \<exists>gs' wc'. filterLoop e c k i xs gs wc = Inr (Finished gs' wc') \<and> set gs \<subseteq> set gs'"
proof (induction xs arbitrary: i gs wc)
  case Nil
  then show ?case by simp
next
  case (Cons y ys)
  from Cons.prems [of i y] obtain v where v: "examine e c (k @ [i]) y = Inr (Some v)"
    by auto
  have total: "\<And>n y. (n, y) \<in> set (enumerate (Suc i) ys)
      \<Longrightarrow> \<exists>v. examine e c (k @ [n]) y = Inr (Some v)"
    using Cons.prems by simp
  have rest: "\<And>gs wc. \<exists>gs' wc'. filterLoop e c k (Suc i) ys gs wc = Inr (Finished gs' wc')
      \<and> set gs \<subseteq> set gs'"
    by (rule Cons.IH [OF total])
  show ?case
  proof (cases v)
    case (Whitelisted stat)
    with v rest [of gs "incr stat wc"] show ?thesis by simp
  next
    case Matched
    with v rest [of "gs @ [y]" wc] show ?thesis by auto
  next
    case NotMatched
    with v rest [of gs wc] show ?thesis by simp
  qed
qed

lemma filterLoop_keeps:
  "(\<And>n y. (n, y) \<in> set (enumerate i xs) \<Longrightarrow> \<exists>v. examine e c (k @ [n]) y = Inr (Some v))
   \<Longrightarrow> (n, x) \<in> set (enumerate i xs) \<Longrightarrow> examine e c (k @ [n]) x = Inr (Some Matched)
   \<Longrightarrow> \<exists>gs' wc'. filterLoop e c k i xs gs wc = Inr (Finished gs' wc')
         \<and> x \<in> set gs' \<and> set gs \<subseteq> set gs'"
proof (induction xs arbitrary: i gs wc)
  case Nil
  then show ?case by simp
next
  case (Cons y ys)
  from Cons.prems(1) [of i y] obtain v where v: "examine e c (k @ [i]) y = Inr (Some v)"
    by auto
  have total: "\<And>n y. (n, y) \<in> set (enumerate (Suc i) ys)
      \<Longrightarrow> \<exists>v. examine e c (k @ [n]) y = Inr (Some v)"
    using Cons.prems(1) by simp
  show ?case
  proof (cases "(n, x) = (i, y)")
    case True
    with Cons.prems(3) have m: "examine e c (k @ [i]) y = Inr (Some Matched)" by simp
    from filterLoop_runs [OF total, where gs = "gs @ [y]" and wc = wc] obtain gs' wc' where
      "filterLoop e c k (Suc i) ys (gs @ [y]) wc = Inr (Finished gs' wc')"
      "set (gs @ [y]) \<subseteq> set gs'" by blast
    with m True show ?thesis by auto
  next
    case False
    with Cons.prems(2) have mem: "(n, x) \<in> set (enumerate (Suc i) ys)" by auto
    have rest: "\<And>gs wc. \<exists>gs' wc'. filterLoop e c k (Suc i) ys gs wc = Inr (Finished gs' wc')
        \<and> x \<in> set gs' \<and> set gs \<subseteq> set gs'"
      by (rule Cons.IH [OF total mem Cons.prems(3)])
    show ?thesis
    proof (cases v)
      case (Whitelisted stat)
      with v rest [of gs "incr stat wc"] show ?thesis by simp
    next
      case Matched
      with v rest [of "gs @ [y]" wc] show ?thesis by auto
    next
      case NotMatched
      with v rest [of gs wc] show ?thesis by simp
    qed
  qed
qed

lemma applyFilters_keeps:
  assumes "\<And>n y. (n, y) \<in> set (enumerate 0 xs) \<Longrightarrow> \<exists>v. examine e c (k @ [n]) y = Inr (Some v)"
    and "(n, x) \<in> set (enumerate 0 xs)"
    and "examine e c (k @ [n]) x = Inr (Some Matched)"
  shows "x \<in> set (applyFilters e c k xs)"
proof -
  from filterLoop_keeps [OF assms, where gs = "[]" and wc = "[]"]
  show ?thesis by (auto simp: applyFilters_def)
qed

lemma filterLoop_fault:
  "(n, x) \<in> set (enumerate i xs) \<Longrightarrow> examine e c (k @ [n]) x = Inl p
   \<Longrightarrow> (\<exists>q. filterLoop e c k i xs gs wc = Inl q)
       \<or> filterLoop e c k i xs gs wc = Inr DefaultReturn"
proof (induction xs arbitrary: i gs wc)
  case Nil
  then show ?case by simp
next
  case (Cons y ys)
  show ?case
  proof (cases "(n, x) = (i, y)")
    case True
    with Cons.prems show ?thesis by simp
  next
    case False
    with Cons.prems have "(n, x) \<in> set (enumerate (Suc i) ys)" by auto
    from Cons.IH [OF this Cons.prems(2)] show ?thesis
      by (simp split: sum.splits option.splits verdict.splits)
  qed
qed

lemma applyFilters_fault:
  "(n, x) \<in> set (enumerate 0 xs) \<Longrightarrow> examine e c (k @ [n]) x = Inl p
   \<Longrightarrow> applyFilters e c k xs = []"
  using filterLoop_fault [of n x 0 xs e c k p "[]" "[]"]
  by (auto simp: applyFilters_def)

lemma Tagged_truncate: "Tagged (Resource.truncate a) s = Tagged a s"
  by (simp add: Tagged_def Resource.truncate_def)

lemma whitelist_check:
  "Reapable_Filter e k x (NewFilter ''Tagged'' [w]) = Inr (Tagged (resourceOf x) w)"
  by (cases x)
    (simp_all add: Reapable_Filter_def AutoScalingGroup_Filter_def NewFilter_def argCase_def
      argument_def Tagged_truncate)

lemma examine_Matched_not_whitelisted:
  "examine e c k x = Inr (Some Matched) \<Longrightarrow> \<not> Tagged (resourceOf x) (WhitelistTag c)"
  by (auto simp: examine_def whitelist_check split: option.splits sum.splits if_splits)

section \<open>What reap hands on\<close>

text \<open>
  The first loop of \<open>reap\<close>, owner by owner (\<open>enumerate j owned\<close> pairs each owner
  with the number of its call of \<open>applyFilters\<close>), and then \<open>reap\<close> as a whole.
\<close>

lemma set_update_subset: "set (AList.update k v al) \<subseteq> insert (k, v) (set al)"
  by (induction al) auto

lemma update_mem: "(k, v) \<in> set (AList.update k v al)"
  by (induction al) auto

lemma update_keeps: "(k, v) \<in> set al \<Longrightarrow> k \<noteq> k' \<Longrightarrow> (k, v) \<in> set (AList.update k' v' al)"
  by (induction al) auto

lemma enumerate_distinct_key:
  assumes "distinct (map fst xs)"
    and "(n, k, v) \<in> set (enumerate j xs)" and "(n', k, v') \<in> set (enumerate j xs)"
  shows "n = n' \<and> v = v'"
proof -
  from assms(2) have n: "j \<le> n" "n - j < length xs" "xs ! (n - j) = (k, v)"
    by (auto simp: in_set_enumerate_eq)
  from assms(3) have n': "j \<le> n'" "n' - j < length xs" "xs ! (n' - j) = (k, v')"
    by (auto simp: in_set_enumerate_eq)
  from n n' have "map fst xs ! (n - j) = map fst xs ! (n' - j)" by simp
  with assms(1) n(2) n'(2) nth_eq_iff_index_eq [of "map fst xs" "n - j" "n' - j"]
  have "n - j = n' - j" by simp
  with n n' show ?thesis by auto
qed

lemma ownedLoop_unowned_mono:
  "set un \<subseteq> set (fst (ownedLoop e c j owned un fl fo))"
proof (induction owned arbitrary: j un fl fo)
  case Nil
  then show ?case by simp
next
  case (Cons p owned)
  obtain ow rs where p: "p = (ow, rs)" by (cases p)
  show ?case
  proof (cases "length (applyFilters e c [j] rs) = 1")
    case True
    have "set (un @ applyFilters e c [j] rs)
        \<subseteq> set (fst (ownedLoop e c (Suc j) owned (un @ applyFilters e c [j] rs) fl fo))"
      by (rule Cons.IH)
    with True p show ?thesis by (simp add: Let_def)
  next
    case False
    have "set un \<subseteq> set (fst (ownedLoop e c (Suc j) owned un (fl @ applyFilters e c [j] rs)
        (AList.update ow (applyFilters e c [j] rs) fo)))"
      by (rule Cons.IH)
    with False p show ?thesis by (simp add: Let_def)
  qed
qed

lemma ownedLoop_filtered_mono:
  "set fl \<subseteq> set (fst (snd (ownedLoop e c j owned un fl fo)))"
proof (induction owned arbitrary: j un fl fo)
  case Nil
  then show ?case by simp
next
  case (Cons p owned)
  obtain ow rs where p: "p = (ow, rs)" by (cases p)
  show ?case
  proof (cases "length (applyFilters e c [j] rs) = 1")
    case True
    have "set fl
        \<subseteq> set (fst (snd (ownedLoop e c (Suc j) owned (un @ applyFilters e c [j] rs) fl fo)))"
      by (rule Cons.IH)
    with True p show ?thesis by (simp add: Let_def)
  next
    case False
    have "set (fl @ applyFilters e c [j] rs)
        \<subseteq> set (fst (snd (ownedLoop e c (Suc j) owned un (fl @ applyFilters e c [j] rs)
              (AList.update ow (applyFilters e c [j] rs) fo))))"
      by (rule Cons.IH)
    with False p show ?thesis by (simp add: Let_def)
  qed
qed

lemma ownedLoop_bucket_kept:
  "(ow, b) \<in> set fo \<Longrightarrow> ow \<notin> fst ` set owned
   \<Longrightarrow> (ow, b) \<in> set (snd (snd (ownedLoop e c j owned un fl fo)))"
proof (induction owned arbitrary: j un fl fo)
  case Nil
  then show ?case by simp
next
  case (Cons p owned)
  obtain ow' rs where p: "p = (ow', rs)" by (cases p)
  from Cons.prems(2) p have ne: "ow \<noteq> ow'" and later: "ow \<notin> fst ` set owned" by auto
  show ?case
  proof (cases "length (applyFilters e c [j] rs) = 1")
    case True
    have "(ow, b) \<in> set (snd (snd (ownedLoop e c (Suc j) owned
        (un @ applyFilters e c [j] rs) fl fo)))"
      by (rule Cons.IH [OF Cons.prems(1) later])
    with True p show ?thesis by (simp add: Let_def)
  next
    case False
    have "(ow, b) \<in> set (AList.update ow' (applyFilters e c [j] rs) fo)"
      by (rule update_keeps [OF Cons.prems(1) ne])
    then have "(ow, b) \<in> set (snd (snd (ownedLoop e c (Suc j) owned un
        (fl @ applyFilters e c [j] rs) (AList.update ow' (applyFilters e c [j] rs) fo))))"
      by (rule Cons.IH [OF _ later])
    with False p show ?thesis by (simp add: Let_def)
  qed
qed

text \<open>Where the result of one owner goes.\<close>

lemma ownedLoop_single:
  "(n, ow, rs) \<in> set (enumerate j owned) \<Longrightarrow> length (applyFilters e c [n] rs) = 1
   \<Longrightarrow> set (applyFilters e c [n] rs) \<subseteq> set (fst (ownedLoop e c j owned un fl fo))"
proof (induction owned arbitrary: j un fl fo)
  case Nil
  then show ?case by simp
next
  case (Cons p owned)
  obtain ow' rs' where p: "p = (ow', rs')" by (cases p)
  show ?case
  proof (cases "(n, ow, rs) = (j, p)")
    case True
    have "set (un @ applyFilters e c [j] rs')
        \<subseteq> set (fst (ownedLoop e c (Suc j) owned (un @ applyFilters e c [j] rs') fl fo))"
      by (rule ownedLoop_unowned_mono)
    with True p Cons.prems(2) show ?thesis by (simp add: Let_def)
  next
    case False
    with Cons.prems(1) have mem: "(n, ow, rs) \<in> set (enumerate (Suc j) owned)" by auto
    have rest: "\<And>un fl fo. set (applyFilters e c [n] rs)
        \<subseteq> set (fst (ownedLoop e c (Suc j) owned un fl fo))"
      by (rule Cons.IH [OF mem Cons.prems(2)])
    show ?thesis
      using p rest by (simp add: Let_def)
  qed
qed

lemma ownedLoop_filtered_contains:
  "(n, ow, rs) \<in> set (enumerate j owned) \<Longrightarrow> length (applyFilters e c [n] rs) \<noteq> 1
   \<Longrightarrow> set (applyFilters e c [n] rs) \<subseteq> set (fst (snd (ownedLoop e c j owned un fl fo)))"
proof (induction owned arbitrary: j un fl fo)
  case Nil
  then show ?case by simp
next
  case (Cons p owned)
  obtain ow' rs' where p: "p = (ow', rs')" by (cases p)
  show ?case
  proof (cases "(n, ow, rs) = (j, p)")
    case True
    have "set (fl @ applyFilters e c [j] rs')
        \<subseteq> set (fst (snd (ownedLoop e c (Suc j) owned un (fl @ applyFilters e c [j] rs')
              (AList.update ow' (applyFilters e c [j] rs') fo))))"
      by (rule ownedLoop_filtered_mono)
    with True p Cons.prems(2) show ?thesis by (simp add: Let_def)
  next
    case False
    with Cons.prems(1) have mem: "(n, ow, rs) \<in> set (enumerate (Suc j) owned)" by auto
    have rest: "\<And>un fl fo. set (applyFilters e c [n] rs)
        \<subseteq> set (fst (snd (ownedLoop e c (Suc j) owned un fl fo)))"
      by (rule Cons.IH [OF mem Cons.prems(2)])
    show ?thesis
      using p rest by (simp add: Let_def)
  qed
qed

lemma ownedLoop_bucket_stored:
  "(n, ow, rs) \<in> set (enumerate j owned) \<Longrightarrow> distinct (map fst owned)
   \<Longrightarrow> length (applyFilters e c [n] rs) \<noteq> 1
   \<Longrightarrow> (ow, applyFilters e c [n] rs) \<in> set (snd (snd (ownedLoop e c j owned un fl fo)))"
proof (induction owned arbitrary: j un fl fo)
  case Nil
  then show ?case by simp
next
  case (Cons p owned)
  obtain ow' rs' where p: "p = (ow', rs')" by (cases p)
  from Cons.prems(2) p have fresh: "ow' \<notin> fst ` set owned" and d: "distinct (map fst owned)"
    by auto
  show ?case
  proof (cases "(n, ow, rs) = (j, p)")
    case True
    have "(ow', applyFilters e c [j] rs')
        \<in> set (AList.update ow' (applyFilters e c [j] rs') fo)"
      by (rule update_mem)
    then have "(ow', applyFilters e c [j] rs')
        \<in> set (snd (snd (ownedLoop e c (Suc j) owned un (fl @ applyFilters e c [j] rs')
              (AList.update ow' (applyFilters e c [j] rs') fo))))"
      by (rule ownedLoop_bucket_kept [OF _ fresh])
    with True p Cons.prems(3) show ?thesis by (simp add: Let_def)
  next
    case False
    with Cons.prems(1) have mem: "(n, ow, rs) \<in> set (enumerate (Suc j) owned)" by auto
    have rest: "\<And>un fl fo. (ow, applyFilters e c [n] rs)
        \<in> set (snd (snd (ownedLoop e c (Suc j) owned un fl fo)))"
      by (rule Cons.IH [OF mem d Cons.prems(3)])
    show ?thesis
      using p rest by (simp add: Let_def)
  qed
qed

text \<open>Where what the loop returns comes from.\<close>

lemma ownedLoop_unowned:
  "y \<in> set (fst (ownedLoop e c j owned un fl fo))
   \<Longrightarrow> y \<in> set un
       \<or> (\<exists>n ow rs. (n, ow, rs) \<in> set (enumerate j owned) \<and> y \<in> set (applyFilters e c [n] rs))"
proof (induction owned arbitrary: j un fl fo)
  case Nil
  then show ?case by simp
next
  case (Cons p owned)
  obtain ow rs where p: "p = (ow, rs)" by (cases p)
  show ?case
  proof (cases "length (applyFilters e c [j] rs) = 1")
    case True
    with Cons.prems p
    have "y \<in> set (fst (ownedLoop e c (Suc j) owned (un @ applyFilters e c [j] rs) fl fo))"
      by (simp add: Let_def)
    from Cons.IH [OF this] show ?thesis using p by auto
  next
    case False
    with Cons.prems p
    have "y \<in> set (fst (ownedLoop e c (Suc j) owned un (fl @ applyFilters e c [j] rs)
        (AList.update ow (applyFilters e c [j] rs) fo)))"
      by (simp add: Let_def)
    from Cons.IH [OF this] show ?thesis using p by auto
  qed
qed

lemma ownedLoop_filtered:
  "y \<in> set (fst (snd (ownedLoop e c j owned un fl fo)))
   \<Longrightarrow> y \<in> set fl
       \<or> (\<exists>n ow rs. (n, ow, rs) \<in> set (enumerate j owned) \<and> y \<in> set (applyFilters e c [n] rs))"
proof (induction owned arbitrary: j un fl fo)
  case Nil
  then show ?case by simp
next
  case (Cons p owned)
  obtain ow rs where p: "p = (ow, rs)" by (cases p)
  show ?case
  proof (cases "length (applyFilters e c [j] rs) = 1")
    case True
    with Cons.prems p
    have "y \<in> set (fst (snd (ownedLoop e c (Suc j) owned (un @ applyFilters e c [j] rs) fl fo)))"
      by (simp add: Let_def)
    from Cons.IH [OF this] show ?thesis using p by auto
  next
    case False
    with Cons.prems p
    have "y \<in> set (fst (snd (ownedLoop e c (Suc j) owned un (fl @ applyFilters e c [j] rs)
        (AList.update ow (applyFilters e c [j] rs) fo))))"
      by (simp add: Let_def)
    from Cons.IH [OF this] show ?thesis using p by auto
  qed
qed

lemma ownedLoop_buckets:
  "(ow, b) \<in> set (snd (snd (ownedLoop e c j owned un fl fo)))
   \<Longrightarrow> (ow, b) \<in> set fo
       \<or> (\<exists>n rs. (n, ow, rs) \<in> set (enumerate j owned) \<and> b = applyFilters e c [n] rs
            \<and> length b \<noteq> 1)"
proof (induction owned arbitrary: j un fl fo)
  case Nil
  then show ?case by simp
next
  case (Cons p owned)
  obtain ow' rs where p: "p = (ow', rs)" by (cases p)
  show ?case
  proof (cases "length (applyFilters e c [j] rs) = 1")
    case True
    with Cons.prems p
    have "(ow, b) \<in> set (snd (snd (ownedLoop e c (Suc j) owned
        (un @ applyFilters e c [j] rs) fl fo)))"
      by (simp add: Let_def)
    from Cons.IH [OF this] show ?thesis using p by auto
  next
    case False
    with Cons.prems p
    have "(ow, b) \<in> set (snd (snd (ownedLoop e c (Suc j) owned un (fl @ applyFilters e c [j] rs)
        (AList.update ow' (applyFilters e c [j] rs) fo))))"
      by (simp add: Let_def)
    from Cons.IH [OF this] set_update_subset [of ow' "applyFilters e c [j] rs" fo] False
    show ?thesis using p by auto
  qed
qed

lemma batchLoop_buckets:
  "ev \<in> set (batchLoop c bs) \<Longrightarrow> \<exists>b \<in> set bs. ev = BatchReapableEvent b [EventTag c] \<and> b \<noteq> []"
  by (induction bs) (auto split: if_splits)

lemma batchLoop_nonempty:
  "BatchReapableEvent b t \<in> set (batchLoop c bs) \<Longrightarrow> b \<in> set bs \<and> b \<noteq> []"
  using batchLoop_buckets [of "BatchReapableEvent b t" c bs] by auto

lemma tallyLoop_reaped: "set (reaped (tallyLoop fs s)) \<subseteq> set (reaped s) \<union> set fs"
proof (induction fs arbitrary: s)
  case Nil
  then show ?case by simp
next
  case (Cons f fs)
  have "set (reaped (tally f s)) \<subseteq> set (reaped s) \<union> {f}"
    by (cases f) auto
  with Cons [of "tally f s"] show ?case by auto
qed

lemma reap_parts:
  "\<exists>un fl fo. ownedLoop e c 0 owned unowned [] [] = (un, fl, fo)
     \<and> unownedList (reap e c owned unowned) = un
     \<and> filtered (reap e c owned unowned) = fl @ applyFilters e c [length owned] un
     \<and> filteredUnowned (reap e c owned unowned) = applyFilters e c [length owned] un
     \<and> filteredOwned (reap e c owned unowned) = fo
     \<and> sums (reap e c owned unowned)
         = tallyLoop (fl @ applyFilters e c [length owned] un) noSums"
  by (cases "ownedLoop e c 0 owned unowned [] []") (simp add: reap_def Let_def)

lemma reap_filteredUnowned:
  "y \<in> set (filteredUnowned (reap e c owned unowned))
   \<Longrightarrow> \<exists>k. examine e c k y = Inr (Some Matched)"
  using reap_parts [of e c owned unowned] applyFilters_matched by fastforce

lemma reap_filtered:
  "y \<in> set (filtered (reap e c owned unowned)) \<Longrightarrow> \<exists>k. examine e c k y = Inr (Some Matched)"
proof -
  assume y: "y \<in> set (filtered (reap e c owned unowned))"
  from reap_parts [of e c owned unowned] obtain un fl fo where
    ol: "ownedLoop e c 0 owned unowned [] [] = (un, fl, fo)" and
    f: "filtered (reap e c owned unowned) = fl @ applyFilters e c [length owned] un"
    by blast
  from y f have "y \<in> set fl \<or> y \<in> set (applyFilters e c [length owned] un)" by simp
  then show ?thesis
  proof
    assume "y \<in> set fl"
    then have "y \<in> set (fst (snd (ownedLoop e c 0 owned unowned [] [])))" using ol by simp
    from ownedLoop_filtered [OF this] show ?thesis using applyFilters_matched by auto
  next
    assume "y \<in> set (applyFilters e c [length owned] un)"
    then show ?thesis by (rule applyFilters_matched)
  qed
qed

lemma reap_filteredOwned:
  "(ow, b) \<in> set (filteredOwned (reap e c owned unowned))
   \<Longrightarrow> \<exists>n rs. (n, ow, rs) \<in> set (enumerate 0 owned) \<and> b = applyFilters e c [n] rs
         \<and> length b \<noteq> 1"
proof -
  assume b: "(ow, b) \<in> set (filteredOwned (reap e c owned unowned))"
  from reap_parts [of e c owned unowned] obtain un fl fo where
    ol: "ownedLoop e c 0 owned unowned [] [] = (un, fl, fo)" and
    f: "filteredOwned (reap e c owned unowned) = fo"
    by blast
  from b f ol have "(ow, b) \<in> set (snd (snd (ownedLoop e c 0 owned unowned [] [])))" by simp
  from ownedLoop_buckets [OF this] show ?thesis by simp
qed

lemma reap_bucket_stored:
  "(n, ow, rs) \<in> set (enumerate 0 owned) \<Longrightarrow> distinct (map fst owned)
   \<Longrightarrow> length (applyFilters e c [n] rs) \<noteq> 1
   \<Longrightarrow> (ow, applyFilters e c [n] rs) \<in> set (filteredOwned (reap e c owned unowned))
       \<and> set (applyFilters e c [n] rs) \<subseteq> set (filtered (reap e c owned unowned))"
proof -
  assume a: "(n, ow, rs) \<in> set (enumerate 0 owned)" and d: "distinct (map fst owned)"
    and l: "length (applyFilters e c [n] rs) \<noteq> 1"
  from reap_parts [of e c owned unowned] obtain un fl fo where
    ol: "ownedLoop e c 0 owned unowned [] [] = (un, fl, fo)" and
    f: "filtered (reap e c owned unowned) = fl @ applyFilters e c [length owned] un" and
    o: "filteredOwned (reap e c owned unowned) = fo"
    by blast
  from ownedLoop_bucket_stored [OF a d l, of unowned "[]" "[]"]
    ownedLoop_filtered_contains [OF a l, of unowned "[]" "[]"] ol f o
  show ?thesis by auto
qed

lemma reap_single_unowned:
  "(n, ow, rs) \<in> set (enumerate 0 owned) \<Longrightarrow> length (applyFilters e c [n] rs) = 1
   \<Longrightarrow> set (applyFilters e c [n] rs) \<subseteq> set (unownedList (reap e c owned unowned))"
proof -
  assume a: "(n, ow, rs) \<in> set (enumerate 0 owned)"
    and l: "length (applyFilters e c [n] rs) = 1"
  from reap_parts [of e c owned unowned] obtain un fl fo where
    ol: "ownedLoop e c 0 owned unowned [] [] = (un, fl, fo)" and
    u: "unownedList (reap e c owned unowned) = un"
    by blast
  from ownedLoop_single [OF a l, of unowned "[]" "[]"] ol u show ?thesis by auto
qed

lemma dispatchEvents_resources:
  "ev \<in> set (dispatchEvents c fo fu) \<Longrightarrow> y \<in> set (eventResources ev)
   \<Longrightarrow> y \<in> set fu \<or> (\<exists>(ow, b) \<in> set fo. y \<in> set b)"
proof -
  assume ev: "ev \<in> set (dispatchEvents c fo fu)" and y: "y \<in> set (eventResources ev)"
  from ev have "ev \<in> set (batchLoop c (map snd fo))
      \<or> (\<exists>r \<in> set fu. ev = ReapableEvent r [EventTag c])"
    by (auto simp: dispatchEvents_def)
  then show ?thesis
  proof
    assume "ev \<in> set (batchLoop c (map snd fo))"
    from batchLoop_buckets [OF this] y show ?thesis by fastforce
  next
    assume "\<exists>r \<in> set fu. ev = ReapableEvent r [EventTag c]"
    with y show ?thesis by auto
  qed
qed

lemma reap_bucket_matched:
  assumes "(ow, b) \<in> set (filteredOwned (reap e c owned unowned))" and "y \<in> set b"
  shows "\<exists>k. examine e c k y = Inr (Some Matched)"
proof -
  from reap_filteredOwned [OF assms(1)] obtain n rs where "b = applyFilters e c [n] rs"
    by blast
  with assms(2) have "y \<in> set (applyFilters e c [n] rs)" by simp
  then show ?thesis by (rule applyFilters_matched)
qed

lemma reap_reaped:
  "y \<in> set (reaped (sums (reap e c owned unowned)))
   \<Longrightarrow> y \<in> set (filtered (reap e c owned unowned))"
proof -
  assume y: "y \<in> set (reaped (sums (reap e c owned unowned)))"
  from reap_parts [of e c owned unowned] obtain un fl where
    f: "filtered (reap e c owned unowned) = fl @ applyFilters e c [length owned] un" and
    s: "sums (reap e c owned unowned)
        = tallyLoop (fl @ applyFilters e c [length owned] un) noSums"
    by blast
  have "set (reaped (tallyLoop (fl @ applyFilters e c [length owned] un) noSums))
      \<subseteq> set (reaped noSums) \<union> set (fl @ applyFilters e c [length owned] un)"
    by (rule tallyLoop_reaped)
  moreover have "reaped noSums = []" by (simp add: noSums_def)
  ultimately show ?thesis using y f s by auto
qed

lemma reap_event_matched:
  assumes "ev \<in> set (dispatchEvents c (filteredOwned (reap e c owned unowned))
                      (filteredUnowned (reap e c owned unowned)))"
    and "y \<in> set (eventResources ev)"
  shows "\<exists>k. examine e c k y = Inr (Some Matched)"
proof -
  from dispatchEvents_resources [OF assms]
  have "y \<in> set (filteredUnowned (reap e c owned unowned))
      \<or> (\<exists>ow b. (ow, b) \<in> set (filteredOwned (reap e c owned unowned)) \<and> y \<in> set b)"
    by auto
  then show ?thesis
  proof
    assume "y \<in> set (filteredUnowned (reap e c owned unowned))"
    then show ?thesis by (rule reap_filteredUnowned)
  next
    assume "\<exists>ow b. (ow, b) \<in> set (filteredOwned (reap e c owned unowned)) \<and> y \<in> set b"
    then obtain ow b where "(ow, b) \<in> set (filteredOwned (reap e c owned unowned))"
      and "y \<in> set b" by blast
    then show ?thesis by (rule reap_bucket_matched)
  qed
qed

text \<open>A resource that no examination matches is nowhere in what \<open>reap\<close> hands on.\<close>

lemma never_matched_excluded:
  assumes no: "\<And>k. examine e c k x \<noteq> Inr (Some Matched)"
  shows "x \<notin> set (applyFilters e c k xs)
     \<and> x \<notin> set (filtered (reap e c owned unowned))
     \<and> x \<notin> set (reaped (sums (reap e c owned unowned)))
     \<and> x \<notin> set (filteredUnowned (reap e c owned unowned))
     \<and> (\<forall>(ow, b) \<in> set (filteredOwned (reap e c owned unowned)). x \<notin> set b)
     \<and> (\<forall>ev \<in> set (dispatchEvents c (filteredOwned (reap e c owned unowned))
                      (filteredUnowned (reap e c owned unowned))).
           x \<notin> set (eventResources ev))"
proof (intro conjI)
  show "x \<notin> set (applyFilters e c k xs)"
    using no applyFilters_matched by blast
  show f: "x \<notin> set (filtered (reap e c owned unowned))"
    using no reap_filtered by blast
  show "x \<notin> set (reaped (sums (reap e c owned unowned)))"
    using f reap_reaped by blast
  show "x \<notin> set (filteredUnowned (reap e c owned unowned))"
    using no reap_filteredUnowned by blast
  show "\<forall>(ow, b) \<in> set (filteredOwned (reap e c owned unowned)). x \<notin> set b"
  proof (clarify)
    fix ow b
    assume "(ow, b) \<in> set (filteredOwned (reap e c owned unowned))" and "x \<in> set b"
    from reap_bucket_matched [OF this] no show False by blast
  qed
  show "\<forall>ev \<in> set (dispatchEvents c (filteredOwned (reap e c owned unowned))
                      (filteredUnowned (reap e c owned unowned))).
           x \<notin> set (eventResources ev)"
  proof (intro ballI notI)
    fix ev
    assume "ev \<in> set (dispatchEvents c (filteredOwned (reap e c owned unowned))
                      (filteredUnowned (reap e c owned unowned)))"
      and "x \<in> set (eventResources ev)"
    from reap_event_matched [OF this] no show False by blast
  qed
qed

section \<open>The sample values, evaluated\<close>

lemma sample_tagged:
  "Tagged (sparedGroup rid) ''REAPER_SPARE_ME''"
  "\<not> Tagged (sampleGroup rid) ''REAPER_SPARE_ME''"
  "\<not> Tagged (dependentGroup rid) ''REAPER_SPARE_ME''"
  "\<not> Tagged (youngGroup rid) ''REAPER_SPARE_ME''"
  "\<not> Tagged (sampleResource rid) ''REAPER_SPARE_ME''"
  "\<not> Tagged (dependentVolume rid) ''REAPER_SPARE_ME''"
  by (simp_all add: Tagged_def sparedGroup_def sampleGroup_def dependentGroup_def
      youngGroup_def sampleResource_def dependentVolume_def)

lemma sample_groups:
  "FilterGroups (AutoScalingGroups_cfg brokenConfig) = [(''broken'', [NewFilter ''Tagged'' []])]"
  "FilterGroups (AutoScalingGroups_cfg regionConfig)
     = [(''east'', [NewFilter ''Region'' [''us-east-1'']])]"
  "FilterGroups (AutoScalingGroups_cfg guardedConfig)
     = [(''unused'', [NewFilter ''IsDependency'' [''false'']])]"
  "FilterGroups (AutoScalingGroups_cfg guardedVolumesConfig)
     = [(''unused'', [NewFilter ''IsDependency'' [''false'']])]"
  "FilterGroups (Volumes_cfg guardedVolumesConfig)
     = [(''unattached'', [NewFilter ''IsDependency'' [''false'']])]"
  "FilterGroups (AutoScalingGroups_cfg recentConfig)
     = [(''recent'', [NewFilter ''CreatedTimeInTheLast'' [''1h'']])]"
  by (simp_all add: brokenConfig_def regionConfig_def guardedConfig_def
      guardedVolumesConfig_def recentConfig_def)

lemma sample_whitelist_tag:
  "WhitelistTag sampleConfig = ''REAPER_SPARE_ME''"
  "WhitelistTag brokenConfig = ''REAPER_SPARE_ME''"
  "WhitelistTag guardedConfig = ''REAPER_SPARE_ME''"
  "WhitelistTag guardedVolumesConfig = ''REAPER_SPARE_ME''"
  "WhitelistTag regionConfig = ''REAPER_SPARE_ME''"
  "WhitelistTag recentConfig = ''REAPER_SPARE_ME''"
  by (simp_all add: sampleConfig_def brokenConfig_def guardedConfig_def
      guardedVolumesConfig_def regionConfig_def recentConfig_def)

lemma examine_no_groups:
  "kindSettings c x = Some (stat, []) \<Longrightarrow>
   examine e c k x
     = Inr (Some (if Tagged (resourceOf x) (WhitelistTag c) then Whitelisted stat else Matched))"
  by (simp add: examine_def groupsVerdict_def whitelist_check)

lemma sample_kindSettings:
  "kindSettings sampleConfig (ASG a) = Some (''reaper.asgs.whitelistedCount'', [])"
  "kindSettings sampleConfig (Instance r) = Some (''reaper.instances.whitelistedCount'', [])"
  "kindSettings sampleConfig (Volume r) = Some (''reaper.volumes.whitelistedCount'', [])"
  "kindSettings brokenConfig (Instance r) = Some (''reaper.instances.whitelistedCount'', [])"
  by (simp_all add: sampleConfig_def brokenConfig_def noGroups_def)

lemma sample_examine:
  "examine sampleEnv sampleConfig k (ASG (sampleGroup rid)) = Inr (Some Matched)"
  "examine sampleEnv sampleConfig k (ASG (dependentGroup rid)) = Inr (Some Matched)"
  "examine sampleEnv sampleConfig k (ASG (sparedGroup rid))
     = Inr (Some (Whitelisted ''reaper.asgs.whitelistedCount''))"
  "examine sampleEnv sampleConfig k (Instance (sampleResource rid)) = Inr (Some Matched)"
  "examine sampleEnv sampleConfig k (Volume (sampleResource rid)) = Inr (Some Matched)"
  "examine sampleEnv sampleConfig k (Volume (dependentVolume rid)) = Inr (Some Matched)"
  "examine sampleEnv brokenConfig k (Instance (sampleResource rid)) = Inr (Some Matched)"
  by (simp_all add: examine_no_groups [OF sample_kindSettings(1)]
      examine_no_groups [OF sample_kindSettings(2)] examine_no_groups [OF sample_kindSettings(3)]
      examine_no_groups [OF sample_kindSettings(4)] sample_tagged sample_whitelist_tag
      Tagged_truncate)

lemma broken_examine:
  "examine sampleEnv brokenConfig k (ASG (sampleGroup rid)) = Inl IndexOutOfRange"
  by (simp add: examine_def sample_groups groupsVerdict_def Reapable_Filter_def
      AutoScalingGroup_Filter_def NewFilter_def argCase_def argument_def)

lemma region_examine:
  "examine sampleEnv regionConfig k (ASG (dependentGroup rid)) = Inr (Some Matched)"
  by (simp add: examine_def sample_groups groupsVerdict_def Reapable_Filter_def
      AutoScalingGroup_Filter_def NewFilter_def argCase_def argument_def Tagged_def
      dependentGroup_def sampleGroup_def sample_whitelist_tag)

lemma drift_since:
  "Since driftEnv (0 # rest) 0 = 3599000000000"
  "Since driftEnv (Suc j # rest) 0 = 3601000000000"
  by (simp_all add: Since_def Sub_def driftEnv_def maxDuration_def minDuration_def)

lemma drift_values:
  "ParseDuration driftEnv ''1h'' = Inr 3600000000000"
  "CreatedTime (youngGroup rid) = Some 0"
  by (simp_all add: driftEnv_def sampleEnv_def youngGroup_def sampleGroup_def)

lemma drift_filter:
  "Reapable_Filter driftEnv (0 # rest) (ASG (youngGroup rid))
     (NewFilter ''CreatedTimeInTheLast'' [''1h'']) = Inr True"
  "Reapable_Filter driftEnv (Suc j # rest) (ASG (youngGroup rid))
     (NewFilter ''CreatedTimeInTheLast'' [''1h'']) = Inr False"
  by (simp_all add: Reapable_Filter_def AutoScalingGroup_Filter_def NewFilter_def
      createdCase_def argument_def drift_since drift_values)

lemma drift_examine:
  "examine driftEnv recentConfig [0, i] (ASG (youngGroup rid)) = Inr (Some Matched)"
  "examine driftEnv recentConfig [Suc j, i] (ASG (youngGroup rid)) = Inr (Some NotMatched)"
  by (simp_all add: examine_def sample_groups groupsVerdict_def whitelist_check
      sample_tagged sample_whitelist_tag Tagged_truncate drift_filter)

lemma broken_batches:
  "applyFilters sampleEnv brokenConfig k [Instance (sampleResource ''i-1'')]
     = [Instance (sampleResource ''i-1'')]"
  "applyFilters sampleEnv brokenConfig k
     [ASG (sampleGroup ''asg-1''), Instance (sampleResource ''i-1'')] = []"
  "applyFilters sampleEnv brokenConfig k
     [Instance (sampleResource ''i-1''), ASG (sampleGroup ''asg-1'')] = []"
  "applyFilters sampleEnv brokenConfig k
     [Instance (sampleResource ''i-2''), Instance (sampleResource ''i-3'')]
     = [Instance (sampleResource ''i-2''), Instance (sampleResource ''i-3'')]"
  by (simp_all add: applyFilters_def sample_examine broken_examine)

lemma drift_batches:
  "applyFilters driftEnv recentConfig [0] [ASG (youngGroup ''asg-5'')]
     = [ASG (youngGroup ''asg-5'')]"
  "applyFilters driftEnv recentConfig [Suc 0] [ASG (youngGroup ''asg-5'')] = []"
  by (simp_all add: applyFilters_def drift_examine)

section \<open>The whitelist\<close>

text \<open>
  C5. A resource that carries the configured whitelist tag, whatever the value, is
  counted as whitelisted whatever the filter groups say of it (the check comes after the
  groups and overrides them), and it is in no result of \<open>applyFilters\<close>, not in the
  filtered set of \<open>reap\<close>, not handed to the reap functions, in no owner's bucket, not
  in the unowned result and in no dispatched event.
\<close>

theorem C5_whitelisted_never_filtered:
  assumes "Tagged (resourceOf x) (WhitelistTag c)"
  shows "(kindSettings c x = Some (stat, groups) \<longrightarrow> groupsVerdict e k x groups = Inr matched
            \<longrightarrow> examine e c k x = Inr (Some (Whitelisted stat)))
     \<and> x \<notin> set (applyFilters e c k xs)
     \<and> x \<notin> set (filtered (reap e c owned unowned))
     \<and> x \<notin> set (reaped (sums (reap e c owned unowned)))
     \<and> x \<notin> set (filteredUnowned (reap e c owned unowned))
     \<and> (\<forall>(ow, b) \<in> set (filteredOwned (reap e c owned unowned)). x \<notin> set b)
     \<and> (\<forall>ev \<in> set (dispatchEvents c (filteredOwned (reap e c owned unowned))
                      (filteredUnowned (reap e c owned unowned))).
           x \<notin> set (eventResources ev))"
proof -
  have no: "\<And>k. examine e c k x \<noteq> Inr (Some Matched)"
    using assms examine_Matched_not_whitelisted by blast
  have a: "kindSettings c x = Some (stat, groups) \<longrightarrow> groupsVerdict e k x groups = Inr matched
            \<longrightarrow> examine e c k x = Inr (Some (Whitelisted stat))"
    using assms by (simp add: examine_def whitelist_check)
  from a never_matched_excluded [OF no, of k xs owned unowned] show ?thesis
    by (rule conjI)
qed

theorem C5_whitelisted_never_filtered_witness:
  "Tagged (resourceOf (ASG (sparedGroup ''asg-0''))) (WhitelistTag sampleConfig)
   \<and> ASG (sparedGroup ''asg-0'')
       \<notin> set (applyFilters sampleEnv sampleConfig [0]
                [ASG (sparedGroup ''asg-0''), ASG (sampleGroup ''asg-1'')])
   \<and> applyFilters sampleEnv sampleConfig [0]
        [ASG (sparedGroup ''asg-0''), ASG (sampleGroup ''asg-1'')] = [ASG (sampleGroup ''asg-1'')]
   \<and> ASG (sparedGroup ''asg-0'')
       \<notin> set (filtered (reap sampleEnv sampleConfig
                [(''bob@example.com'', [ASG (sparedGroup ''asg-0''), ASG (sampleGroup ''asg-1'')])]
                []))"
proof -
  have t: "Tagged (resourceOf (ASG (sparedGroup ''asg-0''))) (WhitelistTag sampleConfig)"
    by (simp add: sample_tagged sample_whitelist_tag Tagged_truncate)
  have a: "applyFilters sampleEnv sampleConfig [0]
        [ASG (sparedGroup ''asg-0''), ASG (sampleGroup ''asg-1'')] = [ASG (sampleGroup ''asg-1'')]"
    by (simp add: applyFilters_def sample_examine)
  from C5_whitelisted_never_filtered [OF t, where e = sampleEnv and k = "[0]"
      and xs = "[ASG (sparedGroup ''asg-0''), ASG (sampleGroup ''asg-1'')]"
      and owned = "[(''bob@example.com'',
            [ASG (sparedGroup ''asg-0''), ASG (sampleGroup ''asg-1'')])]"
      and unowned = "[]"]
    t a
  show ?thesis by blast
qed

section \<open>Dependencies\<close>

lemma noFiltersLoop_False: "noFiltersLoop groups False = False"
  by (induction groups) auto

lemma noFiltersLoop_nonempty:
  assumes "groups \<noteq> []" and "\<And>name grp. (name, grp) \<in> set groups \<Longrightarrow> grp \<noteq> []"
  shows "noFiltersLoop groups nf = False"
proof (cases groups)
  case Nil
  with assms(1) show ?thesis by simp
next
  case (Cons g rest)
  obtain name grp where g: "g = (name, grp)" by (cases g)
  with Cons assms(2) [of name grp] have "grp \<noteq> []" by simp
  with Cons g show ?thesis by (simp add: noFiltersLoop_False)
qed

lemma matchGroups_True:
  "matchGroups e k j x groups m = Inr True
   \<Longrightarrow> m \<or> (\<exists>(name, grp) \<in> set groups. \<exists>k'. ApplyFilters e k' 0 x grp = Inr True)"
proof (induction groups arbitrary: j m)
  case Nil
  then show ?case by simp
next
  case (Cons g groups)
  obtain name grp where g: "g = (name, grp)" by (cases g)
  from Cons.prems g obtain d where d: "ApplyFilters e (k @ [j]) 0 x grp = Inr d"
    and rest: "matchGroups e k (Suc j) x groups (if d then True else m) = Inr True"
    by (auto split: sum.splits)
  from Cons.IH [OF rest] d g show ?case by (auto split: if_splits)
qed

lemma ApplyFilters_all:
  "ApplyFilters e k i x grp = Inr True \<Longrightarrow> f \<in> set grp
   \<Longrightarrow> \<exists>k'. Reapable_Filter e k' x f = Inr True"
proof (induction grp arbitrary: i)
  case Nil
  then show ?case by simp
next
  case (Cons g grp)
  from Cons.prems(1) have here: "Reapable_Filter e (k @ [i]) x g = Inr True"
    and rest: "ApplyFilters e k (Suc i) x grp = Inr True"
    by (auto split: sum.splits bool.splits if_splits)
  show ?case
  proof (cases "f = g")
    case True
    with here show ?thesis by blast
  next
    case False
    with Cons.prems(2) have "f \<in> set grp" by simp
    from Cons.IH [OF rest this] show ?thesis .
  qed
qed

lemma IsDependency_rejects:
  "Function f = ''IsDependency'' \<Longrightarrow> BoolValue e f 0 = Inr (Inr False)
   \<Longrightarrow> Dependency (resourceOf x) \<Longrightarrow> Reapable_Filter e k x f = Inr False"
  by (cases x)
    (simp_all add: Reapable_Filter_def AutoScalingGroup_Filter_def boolCase_def
      Resource.truncate_def)

lemma dependency_not_matched:
  assumes dep: "Dependency (resourceOf x)"
    and some: "filterGroupsOf c x \<noteq> []"
    and guard: "\<And>name grp. (name, grp) \<in> set (filterGroupsOf c x)
        \<Longrightarrow> \<exists>f \<in> set grp. Function f = ''IsDependency'' \<and> BoolValue e f 0 = Inr (Inr False)"
  shows "examine e c k x \<noteq> Inr (Some Matched)"
proof
  let ?groups = "filterGroupsOf c x"
  assume m: "examine e c k x = Inr (Some Matched)"
  from some obtain stat where ks: "kindSettings c x = Some (stat, ?groups)"
    by (auto simp: filterGroupsOf_def split: option.splits)
  with m have gv: "groupsVerdict e k x ?groups = Inr True"
    by (auto simp: examine_def split: sum.splits if_splits)
  have "noFiltersLoop ?groups True = False"
  proof (rule noFiltersLoop_nonempty [OF some])
    fix name grp
    assume "(name, grp) \<in> set ?groups"
    from guard [OF this] show "grp \<noteq> []" by auto
  qed
  with gv some have "matchGroups e k 0 x ?groups False = Inr True"
    by (simp add: groupsVerdict_def)
  from matchGroups_True [OF this] obtain name grp k' where
    mem: "(name, grp) \<in> set ?groups" and ok: "ApplyFilters e k' 0 x grp = Inr True"
    by auto
  from guard [OF mem] obtain f where f: "f \<in> set grp" "Function f = ''IsDependency''"
    "BoolValue e f 0 = Inr (Inr False)" by auto
  from ApplyFilters_all [OF ok f(1)] IsDependency_rejects [OF f(2) f(3) dep]
  show False by simp
qed

text \<open>
  C1, as the code has it. \<open>applyFilters\<close> does not read the dependency flag; only the
  filter \<open>IsDependency\<close> does. A resource whose flag is true is excluded from every
  filtering result, whatever its kind, when there is at least one filter group for its
  kind and every group of its kind holds an \<open>IsDependency\<close> filter whose argument
  reads as false.
\<close>

theorem C1_dependency_excluded_by_IsDependency_groups:
  assumes "Dependency (resourceOf x)"
    and "filterGroupsOf c x \<noteq> []"
    and "\<forall>(name, grp) \<in> set (filterGroupsOf c x).
           \<exists>f \<in> set grp. Function f = ''IsDependency'' \<and> BoolValue e f 0 = Inr (Inr False)"
  shows "x \<notin> set (applyFilters e c k xs)
     \<and> x \<notin> set (filtered (reap e c owned unowned))
     \<and> x \<notin> set (reaped (sums (reap e c owned unowned)))
     \<and> x \<notin> set (filteredUnowned (reap e c owned unowned))
     \<and> (\<forall>(ow, b) \<in> set (filteredOwned (reap e c owned unowned)). x \<notin> set b)
     \<and> (\<forall>ev \<in> set (dispatchEvents c (filteredOwned (reap e c owned unowned))
                      (filteredUnowned (reap e c owned unowned))).
           x \<notin> set (eventResources ev))"
proof -
  have no: "\<And>k. examine e c k x \<noteq> Inr (Some Matched)"
  proof (rule dependency_not_matched [OF assms(1) assms(2)])
    fix name grp
    assume "(name, grp) \<in> set (filterGroupsOf c x)"
    with assms(3)
    show "\<exists>f \<in> set grp. Function f = ''IsDependency'' \<and> BoolValue e f 0 = Inr (Inr False)"
      by blast
  qed
  show ?thesis by (rule never_matched_excluded [OF no])
qed

theorem C1_dependency_excluded_by_IsDependency_groups_witness:
  "Dependency (resourceOf (ASG (dependentGroup ''asg-9'')))
   \<and> filterGroupsOf guardedVolumesConfig (ASG (dependentGroup ''asg-9'')) \<noteq> []
   \<and> ASG (dependentGroup ''asg-9'')
       \<notin> set (applyFilters sampleEnv guardedVolumesConfig [0]
                [ASG (dependentGroup ''asg-9''), ASG (sampleGroup ''asg-1'')])
   \<and> ASG (dependentGroup ''asg-9'')
       \<notin> set (filtered (reap sampleEnv guardedVolumesConfig [] [ASG (dependentGroup ''asg-9'')]))
   \<and> Dependency (resourceOf (Volume (dependentVolume ''vol-9'')))
   \<and> filterGroupsOf guardedVolumesConfig (Volume (dependentVolume ''vol-9'')) \<noteq> []
   \<and> Volume (dependentVolume ''vol-9'')
       \<notin> set (filtered (reap sampleEnv guardedVolumesConfig
            [(''alice@example.com'', [Volume (dependentVolume ''vol-9'')])] []))"
proof -
  let ?a = "ASG (dependentGroup ''asg-9'')" and ?v = "Volume (dependentVolume ''vol-9'')"
  have bv: "BoolValue sampleEnv (NewFilter ''IsDependency'' [''false'']) 0 = Inr (Inr False)"
    by (simp add: NewFilter_def sampleEnv_def argument_def)
  have da: "Dependency (resourceOf ?a)"
    by (simp add: dependentGroup_def Resource.truncate_def)
  have ga: "filterGroupsOf guardedVolumesConfig ?a
      = [(''unused'', [NewFilter ''IsDependency'' [''false'']])]"
    by (simp add: filterGroupsOf_def sample_groups)
  have dv: "Dependency (resourceOf ?v)"
    by (simp add: dependentVolume_def)
  have gv: "filterGroupsOf guardedVolumesConfig ?v
      = [(''unattached'', [NewFilter ''IsDependency'' [''false'']])]"
    by (simp add: filterGroupsOf_def sample_groups)
  have na: "filterGroupsOf guardedVolumesConfig ?a \<noteq> []" using ga by simp
  have nv: "filterGroupsOf guardedVolumesConfig ?v \<noteq> []" using gv by simp
  have ha: "\<forall>(name, grp) \<in> set (filterGroupsOf guardedVolumesConfig ?a).
      \<exists>f \<in> set grp. Function f = ''IsDependency'' \<and> BoolValue sampleEnv f 0 = Inr (Inr False)"
    using bv by (simp add: ga) (simp add: NewFilter_def)
  have hv: "\<forall>(name, grp) \<in> set (filterGroupsOf guardedVolumesConfig ?v).
      \<exists>f \<in> set grp. Function f = ''IsDependency'' \<and> BoolValue sampleEnv f 0 = Inr (Inr False)"
    using bv by (simp add: gv) (simp add: NewFilter_def)
  from C1_dependency_excluded_by_IsDependency_groups [OF da na ha, where k = "[0]"
      and xs = "[ASG (dependentGroup ''asg-9''), ASG (sampleGroup ''asg-1'')]"
      and owned = "[]" and unowned = "[ASG (dependentGroup ''asg-9'')]"]
    C1_dependency_excluded_by_IsDependency_groups [OF dv nv hv, where
      owned = "[(''alice@example.com'', [Volume (dependentVolume ''vol-9'')])]"
      and unowned = "[]"]
    da na dv nv
  show ?thesis by blast
qed

text \<open>
  C1 as stated fails: without such a filter a dependency goes through. With no filter
  group, and also with a group \<open>Region us-east-1\<close> that it matches, the group
  \<open>asg-9\<close> with \<open>Dependency = true\<close> is filtered in, handed to
  \<open>reapAutoScalingGroup\<close> and dispatched.
\<close>

theorem C1_dependency_counterexample:
  "Dependency (dependentGroup ''asg-9'')
   \<and> filtered (reap sampleEnv sampleConfig [] [ASG (dependentGroup ''asg-9'')])
       = [ASG (dependentGroup ''asg-9'')]
   \<and> reaped (sums (reap sampleEnv sampleConfig [] [ASG (dependentGroup ''asg-9'')]))
       = [ASG (dependentGroup ''asg-9'')]
   \<and> dispatchEvents sampleConfig
        (filteredOwned (reap sampleEnv sampleConfig [] [ASG (dependentGroup ''asg-9'')]))
        (filteredUnowned (reap sampleEnv sampleConfig [] [ASG (dependentGroup ''asg-9'')]))
       = [ReapableEvent (ASG (dependentGroup ''asg-9'')) [''app:reaper'']]
   \<and> ApplyFilters sampleEnv [0, 0, 0] 0 (ASG (dependentGroup ''asg-9''))
        [NewFilter ''Region'' [''us-east-1'']] = Inr True
   \<and> filtered (reap sampleEnv regionConfig [] [ASG (dependentGroup ''asg-9'')])
       = [ASG (dependentGroup ''asg-9'')]"
proof -
  let ?x = "ASG (dependentGroup ''asg-9'')"
  have d: "Dependency (dependentGroup ''asg-9'')"
    by (simp add: dependentGroup_def)
  have a: "\<And>k. applyFilters sampleEnv sampleConfig k [?x] = [?x]"
    by (simp add: applyFilters_def sample_examine)
  have b: "\<And>k. applyFilters sampleEnv regionConfig k [?x] = [?x]"
    by (simp add: applyFilters_def region_examine)
  have r: "ApplyFilters sampleEnv [0, 0, 0] 0 ?x [NewFilter ''Region'' [''us-east-1'']] = Inr True"
    by (simp add: Reapable_Filter_def AutoScalingGroup_Filter_def NewFilter_def
        dependentGroup_def sampleGroup_def)
  have f: "filtered (reap sampleEnv sampleConfig [] [?x]) = [?x]"
    by (simp add: reap_def Let_def a)
  have fo: "filteredOwned (reap sampleEnv sampleConfig [] [?x]) = []"
    by (simp add: reap_def Let_def a)
  have fu: "filteredUnowned (reap sampleEnv sampleConfig [] [?x]) = [?x]"
    by (simp add: reap_def Let_def a)
  have t: "reaped (sums (reap sampleEnv sampleConfig [] [?x])) = [?x]"
    by (simp add: reap_def Let_def a noSums_def)
  have ev: "dispatchEvents sampleConfig [] [?x] = [ReapableEvent ?x [''app:reaper'']]"
    by (simp add: dispatchEvents_def sampleConfig_def)
  have g: "filtered (reap sampleEnv regionConfig [] [?x]) = [?x]"
    by (simp add: reap_def Let_def b)
  show ?thesis
    by (simp only: d f fo fu t ev r g simp_thms)
qed

section \<open>A panic inside a filter\<close>

text \<open>
  C3, as the code has it. The recover is that of the whole call: when the examination
  of one resource of a batch panics, \<open>applyFilters\<close> returns the empty result for that
  batch, whatever the other resources are; for an owner's batch the empty result is
  stored as the owner's bucket, and a panic in the unowned batch leaves no unowned
  survivor. The cycle goes on: every owner's batch is filtered by its own call; a
  result of a length other than one is stored as the owner's bucket and is in the
  filtered set, a single survivor is appended to the unowned list; and the unowned
  list is filtered as one more batch, whose result is in the filtered set.
\<close>

theorem C3_panic_empties_the_batch:
  assumes "(j, owner, xs) \<in> set (enumerate 0 owned)"
    and "distinct (map fst owned)"
    and "(i, x) \<in> set (enumerate 0 xs)"
    and "examine e c [j, i] x = Inl p"
  shows "applyFilters e c [j] xs = []
     \<and> (owner, []) \<in> set (filteredOwned (reap e c owned unowned))
     \<and> (\<forall>(n, ow, rs) \<in> set (enumerate 0 owned).
          (length (applyFilters e c [n] rs) \<noteq> 1 \<longrightarrow>
             (ow, applyFilters e c [n] rs) \<in> set (filteredOwned (reap e c owned unowned))
             \<and> set (applyFilters e c [n] rs) \<subseteq> set (filtered (reap e c owned unowned)))
          \<and> (length (applyFilters e c [n] rs) = 1 \<longrightarrow>
             set (applyFilters e c [n] rs) \<subseteq> set (unownedList (reap e c owned unowned))))
     \<and> filteredUnowned (reap e c owned unowned)
         = applyFilters e c [length owned] (unownedList (reap e c owned unowned))
     \<and> set (filteredUnowned (reap e c owned unowned))
         \<subseteq> set (filtered (reap e c owned unowned))
     \<and> (\<forall>(n, y) \<in> set (enumerate 0 (unownedList (reap e c owned unowned))).
          \<forall>q. examine e c [length owned, n] y = Inl q \<longrightarrow>
            filteredUnowned (reap e c owned unowned) = [])"
proof -
  let ?r = "reap e c owned unowned"
  have a: "applyFilters e c [j] xs = []"
    using applyFilters_fault [OF assms(3), of e c "[j]" p] assms(4) by simp
  then have l: "length (applyFilters e c [j] xs) \<noteq> 1" by simp
  have b: "(owner, []) \<in> set (filteredOwned ?r)"
    using reap_bucket_stored [OF assms(1) assms(2) l, of unowned] a by simp
  have d: "\<forall>(n, ow, rs) \<in> set (enumerate 0 owned).
          (length (applyFilters e c [n] rs) \<noteq> 1 \<longrightarrow>
             (ow, applyFilters e c [n] rs) \<in> set (filteredOwned ?r)
             \<and> set (applyFilters e c [n] rs) \<subseteq> set (filtered ?r))
          \<and> (length (applyFilters e c [n] rs) = 1 \<longrightarrow>
             set (applyFilters e c [n] rs) \<subseteq> set (unownedList ?r))"
  proof (intro ballI, clarify, intro conjI impI)
    fix n ow rs
    assume mem: "(n, ow, rs) \<in> set (enumerate 0 owned)"
    {
      assume "length (applyFilters e c [n] rs) \<noteq> 1"
      from reap_bucket_stored [OF mem assms(2) this, of unowned]
      show "(ow, applyFilters e c [n] rs) \<in> set (filteredOwned ?r)"
        and "set (applyFilters e c [n] rs) \<subseteq> set (filtered ?r)" by simp_all
    }
    {
      assume "length (applyFilters e c [n] rs) = 1"
      from reap_single_unowned [OF mem this, of unowned]
      show "set (applyFilters e c [n] rs) \<subseteq> set (unownedList ?r)" .
    }
  qed
  from reap_parts [of e c owned unowned] obtain un fl fo where
    u: "unownedList ?r = un" and
    f: "filtered ?r = fl @ applyFilters e c [length owned] un" and
    fu: "filteredUnowned ?r = applyFilters e c [length owned] un"
    by blast
  have g: "filteredUnowned ?r = applyFilters e c [length owned] (unownedList ?r)"
    using u fu by simp
  have h: "set (filteredUnowned ?r) \<subseteq> set (filtered ?r)"
    using f fu by simp
  have m: "\<forall>(n, y) \<in> set (enumerate 0 (unownedList ?r)).
          \<forall>q. examine e c [length owned, n] y = Inl q \<longrightarrow> filteredUnowned ?r = []"
  proof (intro ballI, clarify)
    fix n y q
    assume "(n, y) \<in> set (enumerate 0 (unownedList ?r))"
      and "examine e c [length owned, n] y = Inl q"
    with applyFilters_fault [of n y "unownedList ?r" e c "[length owned]" q] g
    show "filteredUnowned ?r = []" by simp
  qed
  from a b d g h m show ?thesis by (intro conjI)
qed

theorem C3_panic_empties_the_batch_witness:
  "(0, ''alice@example.com'', [ASG (sampleGroup ''asg-1''), Instance (sampleResource ''i-1'')])
     \<in> set (enumerate 0
         [(''alice@example.com'', [ASG (sampleGroup ''asg-1''), Instance (sampleResource ''i-1'')]),
          (''bob@example.com'', [Instance (sampleResource ''i-2''), Instance (sampleResource ''i-3'')])])
   \<and> (0, ASG (sampleGroup ''asg-1''))
     \<in> set (enumerate 0 [ASG (sampleGroup ''asg-1''), Instance (sampleResource ''i-1'')])
   \<and> examine sampleEnv brokenConfig [0, 0] (ASG (sampleGroup ''asg-1'')) = Inl IndexOutOfRange
   \<and> applyFilters sampleEnv brokenConfig [0]
        [ASG (sampleGroup ''asg-1''), Instance (sampleResource ''i-1'')] = []
   \<and> (''alice@example.com'', [])
       \<in> set (filteredOwned (reap sampleEnv brokenConfig
            [(''alice@example.com'', [ASG (sampleGroup ''asg-1''), Instance (sampleResource ''i-1'')]),
             (''bob@example.com'', [Instance (sampleResource ''i-2''), Instance (sampleResource ''i-3'')])]
            []))
   \<and> (''bob@example.com'', [Instance (sampleResource ''i-2''), Instance (sampleResource ''i-3'')])
       \<in> set (filteredOwned (reap sampleEnv brokenConfig
            [(''alice@example.com'', [ASG (sampleGroup ''asg-1''), Instance (sampleResource ''i-1'')]),
             (''bob@example.com'', [Instance (sampleResource ''i-2''), Instance (sampleResource ''i-3'')])]
            []))"
proof -
  let ?alice = "[ASG (sampleGroup ''asg-1''), Instance (sampleResource ''i-1'')]"
  let ?bob = "[Instance (sampleResource ''i-2''), Instance (sampleResource ''i-3'')]"
  let ?owned = "[(''alice@example.com'', ?alice), (''bob@example.com'', ?bob)]"
  have m: "(0, ''alice@example.com'', ?alice) \<in> set (enumerate 0 ?owned)" by simp
  have d: "distinct (map fst ?owned)" by simp
  have i: "(0, ASG (sampleGroup ''asg-1'')) \<in> set (enumerate 0 ?alice)" by simp
  have p: "examine sampleEnv brokenConfig [0, 0] (ASG (sampleGroup ''asg-1''))
      = Inl IndexOutOfRange"
    by (rule broken_examine)
  have bm: "(Suc 0, ''bob@example.com'', ?bob) \<in> set (enumerate 0 ?owned)" by simp
  have bl: "length (applyFilters sampleEnv brokenConfig [Suc 0] ?bob) \<noteq> 1"
    by (simp add: broken_batches)
  from C3_panic_empties_the_batch [OF m d i p, where unowned = "[]"]
  have all: "applyFilters sampleEnv brokenConfig [0] ?alice = []"
    "(''alice@example.com'', [])
       \<in> set (filteredOwned (reap sampleEnv brokenConfig ?owned []))"
    "\<forall>(n, ow, rs) \<in> set (enumerate 0 ?owned).
          (length (applyFilters sampleEnv brokenConfig [n] rs) \<noteq> 1 \<longrightarrow>
             (ow, applyFilters sampleEnv brokenConfig [n] rs)
               \<in> set (filteredOwned (reap sampleEnv brokenConfig ?owned []))
             \<and> set (applyFilters sampleEnv brokenConfig [n] rs)
               \<subseteq> set (filtered (reap sampleEnv brokenConfig ?owned [])))
          \<and> (length (applyFilters sampleEnv brokenConfig [n] rs) = 1 \<longrightarrow>
             set (applyFilters sampleEnv brokenConfig [n] rs)
               \<subseteq> set (unownedList (reap sampleEnv brokenConfig ?owned [])))"
    by blast+
  from all(3) bm bl
  have "(''bob@example.com'', applyFilters sampleEnv brokenConfig [Suc 0] ?bob)
      \<in> set (filteredOwned (reap sampleEnv brokenConfig ?owned []))"
    by blast
  then have bob: "(''bob@example.com'', ?bob)
      \<in> set (filteredOwned (reap sampleEnv brokenConfig ?owned []))"
    by (simp add: broken_batches)
  from m i p all(1) all(2) bob show ?thesis by (intro conjI)
qed

text \<open>
  C3 as stated fails: the resources next to the one that panics are not kept. The
  instance \<open>i-1\<close> matches on its own, and is dropped from a batch in which the group
  \<open>asg-1\<close> meets a \<open>Tagged\<close> filter without argument, before it or after it.
\<close>

theorem C3_panic_counterexample:
  "examine sampleEnv brokenConfig [0, 1] (Instance (sampleResource ''i-1'')) = Inr (Some Matched)
   \<and> applyFilters sampleEnv brokenConfig [0] [Instance (sampleResource ''i-1'')]
       = [Instance (sampleResource ''i-1'')]
   \<and> examine sampleEnv brokenConfig [0, 0] (ASG (sampleGroup ''asg-1'')) = Inl IndexOutOfRange
   \<and> applyFilters sampleEnv brokenConfig [0]
        [ASG (sampleGroup ''asg-1''), Instance (sampleResource ''i-1'')] = []
   \<and> applyFilters sampleEnv brokenConfig [0]
        [Instance (sampleResource ''i-1''), ASG (sampleGroup ''asg-1'')] = []"
  by (simp only: broken_batches broken_examine sample_examine simp_thms)

section \<open>An owner with a single survivor\<close>

lemma dispatchEvents_single:
  "ReapableEvent x [EventTag c] \<in> set (dispatchEvents c fo fu) \<longleftrightarrow> x \<in> set fu"
proof -
  have "ReapableEvent x [EventTag c] \<notin> set (batchLoop c (map snd fo))"
    using batchLoop_buckets [of "ReapableEvent x [EventTag c]" c "map snd fo"] by auto
  then show ?thesis by (auto simp: dispatchEvents_def)
qed

text \<open>
  C6, as the code has it. When the filtering of an owner's resources leaves exactly
  one, the survivor is appended to the unowned list, no bucket is stored for that
  owner and no batch event has fewer than two resources. The unowned list is then
  filtered again as one batch, in which every filter reads the clock anew, and an
  individual event is dispatched for the survivor exactly when it is in the result of
  that filtering. It is when every resource of the unowned list gets a verdict there
  (none panics, none is of an unknown kind) and the survivor matches again.
\<close>

theorem C6_single_survivor_goes_unowned:
  assumes "(j, owner, rs) \<in> set (enumerate 0 owned)"
    and "distinct (map fst owned)"
    and "applyFilters e c [j] rs = [x]"
  shows "x \<in> set (unownedList (reap e c owned unowned))
     \<and> owner \<notin> fst ` set (filteredOwned (reap e c owned unowned))
     \<and> (\<forall>ev \<in> set (dispatchEvents c (filteredOwned (reap e c owned unowned))
                      (filteredUnowned (reap e c owned unowned))).
          \<forall>b t. ev = BatchReapableEvent b t \<longrightarrow> 2 \<le> length b)
     \<and> filteredUnowned (reap e c owned unowned)
         = applyFilters e c [length owned] (unownedList (reap e c owned unowned))
     \<and> (ReapableEvent x [EventTag c]
           \<in> set (dispatchEvents c (filteredOwned (reap e c owned unowned))
                    (filteredUnowned (reap e c owned unowned)))
         \<longleftrightarrow> x \<in> set (filteredUnowned (reap e c owned unowned)))
     \<and> ((\<forall>(n, y) \<in> set (enumerate 0 (unownedList (reap e c owned unowned))).
            \<exists>v. examine e c [length owned, n] y = Inr (Some v))
         \<longrightarrow> (\<exists>n. (n, x) \<in> set (enumerate 0 (unownedList (reap e c owned unowned)))
                \<and> examine e c [length owned, n] x = Inr (Some Matched))
         \<longrightarrow> x \<in> set (filteredUnowned (reap e c owned unowned)))"
proof -
  let ?r = "reap e c owned unowned"
  from reap_parts [of e c owned unowned] obtain un fl fo where
    u: "unownedList ?r = un" and
    fu: "filteredUnowned ?r = applyFilters e c [length owned] un"
    by blast
  have one: "length (applyFilters e c [j] rs) = 1" using assms(3) by simp
  have a: "x \<in> set (unownedList ?r)"
    using reap_single_unowned [OF assms(1) one, of unowned] assms(3) by simp
  have bucket: "\<And>ow b. (ow, b) \<in> set (filteredOwned ?r)
      \<Longrightarrow> \<exists>n rs'. (n, ow, rs') \<in> set (enumerate 0 owned) \<and> b = applyFilters e c [n] rs'
            \<and> length b \<noteq> 1"
    by (rule reap_filteredOwned)
  have b: "owner \<notin> fst ` set (filteredOwned ?r)"
  proof
    assume "owner \<in> fst ` set (filteredOwned ?r)"
    then obtain b where "(owner, b) \<in> set (filteredOwned ?r)" by auto
    from bucket [OF this] obtain n rs' where
      rs': "(n, owner, rs') \<in> set (enumerate 0 owned)" "b = applyFilters e c [n] rs'"
        "length b \<noteq> 1" by blast
    from enumerate_distinct_key [OF assms(2) assms(1) rs'(1)] have "j = n" "rs = rs'"
      by simp_all
    with rs' assms(3) show False by simp
  qed
  have d: "\<forall>ev \<in> set (dispatchEvents c (filteredOwned ?r) (filteredUnowned ?r)).
          \<forall>b t. ev = BatchReapableEvent b t \<longrightarrow> 2 \<le> length b"
  proof (intro ballI allI impI)
    fix ev b t
    assume ev: "ev \<in> set (dispatchEvents c (filteredOwned ?r) (filteredUnowned ?r))"
      and eq: "ev = BatchReapableEvent b t"
    then have "BatchReapableEvent b t \<in> set (batchLoop c (map snd (filteredOwned ?r)))"
      by (auto simp: dispatchEvents_def)
    from batchLoop_nonempty [OF this] obtain ow where
      "(ow, b) \<in> set (filteredOwned ?r)" and ne: "b \<noteq> []" by auto
    from bucket [OF this(1)] have "length b \<noteq> 1" by blast
    moreover from ne have "length b \<noteq> 0" by simp
    ultimately show "2 \<le> length b" by arith
  qed
  have g: "filteredUnowned ?r = applyFilters e c [length owned] (unownedList ?r)"
    using u fu by simp
  have h: "ReapableEvent x [EventTag c]
           \<in> set (dispatchEvents c (filteredOwned ?r) (filteredUnowned ?r))
         \<longleftrightarrow> x \<in> set (filteredUnowned ?r)"
    by (rule dispatchEvents_single)
  have m: "(\<forall>(n, y) \<in> set (enumerate 0 (unownedList ?r)).
            \<exists>v. examine e c [length owned, n] y = Inr (Some v))
         \<longrightarrow> (\<exists>n. (n, x) \<in> set (enumerate 0 (unownedList ?r))
                \<and> examine e c [length owned, n] x = Inr (Some Matched))
         \<longrightarrow> x \<in> set (filteredUnowned ?r)"
  proof (intro impI)
    assume total: "\<forall>(n, y) \<in> set (enumerate 0 (unownedList ?r)).
            \<exists>v. examine e c [length owned, n] y = Inr (Some v)"
      and again: "\<exists>n. (n, x) \<in> set (enumerate 0 (unownedList ?r))
                \<and> examine e c [length owned, n] x = Inr (Some Matched)"
    from again obtain n where n: "(n, x) \<in> set (enumerate 0 (unownedList ?r))"
      "examine e c ([length owned] @ [n]) x = Inr (Some Matched)" by auto
    have t: "\<And>n y. (n, y) \<in> set (enumerate 0 (unownedList ?r))
        \<Longrightarrow> \<exists>v. examine e c ([length owned] @ [n]) y = Inr (Some v)"
      using total by auto
    from applyFilters_keeps [OF t n] g show "x \<in> set (filteredUnowned ?r)" by simp
  qed
  from a b d g h m show ?thesis by (intro conjI)
qed

theorem C6_single_survivor_goes_unowned_witness:
  "(0, ''alice@example.com'', [ASG (sparedGroup ''asg-0''), Instance (sampleResource ''i-1'')])
     \<in> set (enumerate 0
        [(''alice@example.com'', [ASG (sparedGroup ''asg-0''), Instance (sampleResource ''i-1'')])])
   \<and> distinct (map fst
        [(''alice@example.com'', [ASG (sparedGroup ''asg-0''), Instance (sampleResource ''i-1'')])])
   \<and> applyFilters sampleEnv sampleConfig [0]
        [ASG (sparedGroup ''asg-0''), Instance (sampleResource ''i-1'')]
       = [Instance (sampleResource ''i-1'')]
   \<and> unownedList (reap sampleEnv sampleConfig
           [(''alice@example.com'', [ASG (sparedGroup ''asg-0''), Instance (sampleResource ''i-1'')])]
           [Volume (sampleResource ''vol-1'')])
       = [Volume (sampleResource ''vol-1''), Instance (sampleResource ''i-1'')]
   \<and> Instance (sampleResource ''i-1'')
       \<in> set (filteredUnowned (reap sampleEnv sampleConfig
           [(''alice@example.com'', [ASG (sparedGroup ''asg-0''), Instance (sampleResource ''i-1'')])]
           [Volume (sampleResource ''vol-1'')]))
   \<and> ReapableEvent (Instance (sampleResource ''i-1'')) [EventTag sampleConfig]
       \<in> set (dispatchEvents sampleConfig
           (filteredOwned (reap sampleEnv sampleConfig
             [(''alice@example.com'', [ASG (sparedGroup ''asg-0''), Instance (sampleResource ''i-1'')])]
             [Volume (sampleResource ''vol-1'')]))
           (filteredUnowned (reap sampleEnv sampleConfig
             [(''alice@example.com'', [ASG (sparedGroup ''asg-0''), Instance (sampleResource ''i-1'')])]
             [Volume (sampleResource ''vol-1'')])))
   \<and> ''alice@example.com''
       \<notin> fst ` set (filteredOwned (reap sampleEnv sampleConfig
           [(''alice@example.com'', [ASG (sparedGroup ''asg-0''), Instance (sampleResource ''i-1'')])]
           [Volume (sampleResource ''vol-1'')]))"
proof -
  let ?rs = "[ASG (sparedGroup ''asg-0''), Instance (sampleResource ''i-1'')]"
  let ?owned = "[(''alice@example.com'', ?rs)]"
  let ?un = "[Volume (sampleResource ''vol-1'')]"
  let ?r = "reap sampleEnv sampleConfig ?owned ?un"
  have m: "(0, ''alice@example.com'', ?rs) \<in> set (enumerate 0 ?owned)" by simp
  have d: "distinct (map fst ?owned)" by simp
  have a: "applyFilters sampleEnv sampleConfig [0] ?rs = [Instance (sampleResource ''i-1'')]"
    by (simp add: applyFilters_def sample_examine)
  have u: "unownedList ?r = [Volume (sampleResource ''vol-1''), Instance (sampleResource ''i-1'')]"
    by (simp add: reap_def Let_def a)
  have total: "\<forall>(n, y) \<in> set (enumerate 0 (unownedList ?r)).
      \<exists>v. examine sampleEnv sampleConfig [length ?owned, n] y = Inr (Some v)"
    by (simp add: u sample_examine)
  have again: "\<exists>n. (n, Instance (sampleResource ''i-1'')) \<in> set (enumerate 0 (unownedList ?r))
      \<and> examine sampleEnv sampleConfig [length ?owned, n] (Instance (sampleResource ''i-1''))
          = Inr (Some Matched)"
    by (simp add: u sample_examine)
  from C6_single_survivor_goes_unowned [OF m d a, where unowned = ?un] total again
  have "Instance (sampleResource ''i-1'') \<in> set (filteredUnowned ?r)"
    and "ReapableEvent (Instance (sampleResource ''i-1'')) [EventTag sampleConfig]
       \<in> set (dispatchEvents sampleConfig (filteredOwned ?r) (filteredUnowned ?r))"
    and "''alice@example.com'' \<notin> fst ` set (filteredOwned ?r)"
    by blast+
  with m d a u show ?thesis by (intro conjI)
qed

text \<open>
  C6 as stated fails, in two ways. The single survivor \<open>i-1\<close> of owner alice is
  appended to an unowned list that holds the group \<open>asg-1\<close>, on which a \<open>Tagged\<close>
  filter without argument panics: the unowned result is empty and no event at all is
  dispatched. And the group \<open>asg-5\<close>, created at time 0, is the single survivor of a
  filter \<open>CreatedTimeInTheLast 1h\<close> while the clock reads one second before the hour;
  when the unowned list is filtered the clock reads one second after the hour, the
  group no longer matches, and no event is dispatched although nothing panicked.
\<close>

theorem C6_single_survivor_counterexample:
  "applyFilters sampleEnv brokenConfig [0] [Instance (sampleResource ''i-1'')]
     = [Instance (sampleResource ''i-1'')]
   \<and> unownedList (reap sampleEnv brokenConfig
        [(''alice@example.com'', [Instance (sampleResource ''i-1'')])]
        [ASG (sampleGroup ''asg-1'')])
     = [ASG (sampleGroup ''asg-1''), Instance (sampleResource ''i-1'')]
   \<and> filteredUnowned (reap sampleEnv brokenConfig
        [(''alice@example.com'', [Instance (sampleResource ''i-1'')])]
        [ASG (sampleGroup ''asg-1'')]) = []
   \<and> dispatchEvents brokenConfig
        (filteredOwned (reap sampleEnv brokenConfig
           [(''alice@example.com'', [Instance (sampleResource ''i-1'')])]
           [ASG (sampleGroup ''asg-1'')]))
        (filteredUnowned (reap sampleEnv brokenConfig
           [(''alice@example.com'', [Instance (sampleResource ''i-1'')])]
           [ASG (sampleGroup ''asg-1'')])) = []
   \<and> applyFilters driftEnv recentConfig [0] [ASG (youngGroup ''asg-5'')]
     = [ASG (youngGroup ''asg-5'')]
   \<and> unownedList (reap driftEnv recentConfig
        [(''alice@example.com'', [ASG (youngGroup ''asg-5'')])] [])
     = [ASG (youngGroup ''asg-5'')]
   \<and> examine driftEnv recentConfig [1, 0] (ASG (youngGroup ''asg-5'')) = Inr (Some NotMatched)
   \<and> filteredUnowned (reap driftEnv recentConfig
        [(''alice@example.com'', [ASG (youngGroup ''asg-5'')])] []) = []
   \<and> dispatchEvents recentConfig
        (filteredOwned (reap driftEnv recentConfig
           [(''alice@example.com'', [ASG (youngGroup ''asg-5'')])] []))
        (filteredUnowned (reap driftEnv recentConfig
           [(''alice@example.com'', [ASG (youngGroup ''asg-5'')])] [])) = []"
proof -
  let ?r = "reap sampleEnv brokenConfig
        [(''alice@example.com'', [Instance (sampleResource ''i-1'')])]
        [ASG (sampleGroup ''asg-1'')]"
  let ?s = "reap driftEnv recentConfig
        [(''alice@example.com'', [ASG (youngGroup ''asg-5'')])] []"
  have u: "unownedList ?r = [ASG (sampleGroup ''asg-1''), Instance (sampleResource ''i-1'')]"
    by (simp add: reap_def Let_def broken_batches)
  have fu: "filteredUnowned ?r = []"
    by (simp add: reap_def Let_def broken_batches)
  have fo: "filteredOwned ?r = []"
    by (simp add: reap_def Let_def broken_batches)
  have su: "unownedList ?s = [ASG (youngGroup ''asg-5'')]"
    by (simp add: reap_def Let_def drift_batches)
  have sfu: "filteredUnowned ?s = []"
    by (simp add: reap_def Let_def drift_batches)
  have sfo: "filteredOwned ?s = []"
    by (simp add: reap_def Let_def drift_batches)
  have ex: "examine driftEnv recentConfig [1, 0] (ASG (youngGroup ''asg-5''))
      = Inr (Some NotMatched)"
    using drift_examine(2) [of 0 0 "''asg-5''"] by simp
  have ev: "\<And>c. dispatchEvents c [] [] = []"
    by (simp add: dispatchEvents_def)
  show ?thesis
    by (simp only: broken_batches drift_batches u fu fo su sfu sfo ex ev simp_thms)
qed

section \<open>Dispatch and statistics\<close>

text \<open>
  C2. Bob's only resource is whitelisted, Alice has two survivors. The bucket stored
  for Bob is empty; when the range over \<open>filteredOwned\<close> visits it first, the loop
  leaves by \<open>break\<close> and no batch event is attempted for Alice.
\<close>

theorem C2_empty_bucket_stops_the_batches:
  "filteredOwned (reap sampleEnv sampleConfig
      [(''bob@example.com'', [ASG (sparedGroup ''asg-0'')]),
       (''alice@example.com'', [ASG (sampleGroup ''asg-1''), ASG (sampleGroup ''asg-2'')])] [])
    = [(''bob@example.com'', []),
       (''alice@example.com'', [ASG (sampleGroup ''asg-1''), ASG (sampleGroup ''asg-2'')])]
   \<and> filtered (reap sampleEnv sampleConfig
      [(''bob@example.com'', [ASG (sparedGroup ''asg-0'')]),
       (''alice@example.com'', [ASG (sampleGroup ''asg-1''), ASG (sampleGroup ''asg-2'')])] [])
    = [ASG (sampleGroup ''asg-1''), ASG (sampleGroup ''asg-2'')]
   \<and> dispatchEvents sampleConfig
        [(''bob@example.com'', []),
         (''alice@example.com'', [ASG (sampleGroup ''asg-1''), ASG (sampleGroup ''asg-2'')])]
        [] = []"
proof -
  have f: "\<And>k. applyFilters sampleEnv sampleConfig k [ASG (sparedGroup ''asg-0'')] = []"
    by (simp add: applyFilters_def sample_examine)
  have g: "\<And>k. applyFilters sampleEnv sampleConfig k
      [ASG (sampleGroup ''asg-1''), ASG (sampleGroup ''asg-2'')]
     = [ASG (sampleGroup ''asg-1''), ASG (sampleGroup ''asg-2'')]"
    by (simp add: applyFilters_def sample_examine)
  have h: "\<And>k. applyFilters sampleEnv sampleConfig k [] = []"
    by (simp add: applyFilters_def)
  show ?thesis
    by (simp add: reap_def Let_def f g h dispatchEvents_def)
qed

text \<open>
  C4. One volume survives the filters in \<open>us-east-1\<close>. It is counted in
  \<open>filteredVolumeSums\<close>, and no statistic is posted: the goroutine ranges over the
  sums of the four other kinds only.
\<close>

theorem C4_no_filtered_statistic_for_volumes:
  "filtered (reap sampleEnv sampleConfig [] [Volume (sampleResource ''vol-1'')])
     = [Volume (sampleResource ''vol-1'')]
   \<and> filteredVolumeSums (sums (reap sampleEnv sampleConfig [] [Volume (sampleResource ''vol-1'')]))
     = [(''us-east-1'', 1)]
   \<and> postStatistics sampleConfig
        (sums (reap sampleEnv sampleConfig [] [Volume (sampleResource ''vol-1'')])) = []"
proof -
  have f: "\<And>k. applyFilters sampleEnv sampleConfig k [Volume (sampleResource ''vol-1'')]
      = [Volume (sampleResource ''vol-1'')]"
    by (simp add: applyFilters_def sample_examine)
  have r: "Region (sampleResource ''vol-1'') = ''us-east-1''"
    by (simp add: sampleResource_def)
  show ?thesis
    by (simp add: reap_def Let_def f noSums_def incr_def r postStatistics_def
        regionStatistics_def)
qed

end
